(* ===== verification/Nokkud_Prelude.thy ===== *)
theory Nokkud_Prelude
  imports Main "HOL-Library.Word" "HOL-Library.Sublist"
begin

text \<open>
  What the components share: the Go standard-library functions on strings that the daemon
  calls, decimal numbers, instants of \<^verbatim>\<open>time.Time\<close>, buffered channels used as
  counting semaphores, and the two interface locales every component builds on, a pool of
  slots and a transition system with an invariant.

  A Go string is a sequence of bytes, and so is a HOL \<^typ>\<open>string\<close>: a character is one byte.
\<close>

named_theorems go_str \<open>characterisations of the string functions of the Go library\<close>
named_theorems inv_intro \<open>introduction rules that preserve a component's invariant\<close>

type_synonym bytes = string

section \<open>Strings\<close>

text \<open>\<^verbatim>\<open>strings.HasPrefix\<close>, \<^verbatim>\<open>strings.CutPrefix\<close> and \<^verbatim>\<open>strings.HasSuffix\<close>.\<close>

fun has_prefix :: "string \<Rightarrow> string \<Rightarrow> bool" where
  "has_prefix s [] = True"
| "has_prefix [] (c # p) = False"
| "has_prefix (a # s) (c # p) = (a = c \<and> has_prefix s p)"

definition cut_prefix :: "string \<Rightarrow> string \<Rightarrow> string option" where
  "cut_prefix s p = (if has_prefix s p then Some (drop (length p) s) else None)"

definition has_suffix :: "string \<Rightarrow> string \<Rightarrow> bool" where
  "has_suffix s p = has_prefix (rev s) (rev p)"

text \<open>\<^verbatim>\<open>strings.Split\<close> on one separator byte, and \<^verbatim>\<open>strings.Join\<close>.\<close>

fun split_on :: "char \<Rightarrow> string \<Rightarrow> string list" where
  "split_on c [] = [[]]"
| "split_on c (x # xs) =
     (if x = c then [] # split_on c xs
      else case split_on c xs of [] \<Rightarrow> [[x]] | w # ws \<Rightarrow> (x # w) # ws)"

fun join_with :: "string \<Rightarrow> string list \<Rightarrow> string" where
  "join_with sep [] = []"
| "join_with sep [w] = w"
| "join_with sep (w # ws) = w @ sep @ join_with sep ws"

text \<open>
  \<^verbatim>\<open>strings.TrimSpace\<close> drops the white space of Unicode at both ends. The list holds the
  UTF-8 form of every character for which \<^verbatim>\<open>unicode.IsSpace\<close> holds.
\<close>

definition go_spaces :: "string list" where
  "go_spaces =
     [[CHR 0x09], [CHR 0x0A], [CHR 0x0B], [CHR 0x0C], [CHR 0x0D], [CHR 0x20],
      [CHR 0xC2, CHR 0x85], [CHR 0xC2, CHR 0xA0], [CHR 0xE1, CHR 0x9A, CHR 0x80],
      [CHR 0xE2, CHR 0x80, CHR 0x80], [CHR 0xE2, CHR 0x80, CHR 0x81],
      [CHR 0xE2, CHR 0x80, CHR 0x82], [CHR 0xE2, CHR 0x80, CHR 0x83],
      [CHR 0xE2, CHR 0x80, CHR 0x84], [CHR 0xE2, CHR 0x80, CHR 0x85],
      [CHR 0xE2, CHR 0x80, CHR 0x86], [CHR 0xE2, CHR 0x80, CHR 0x87],
      [CHR 0xE2, CHR 0x80, CHR 0x88], [CHR 0xE2, CHR 0x80, CHR 0x89],
      [CHR 0xE2, CHR 0x80, CHR 0x8A], [CHR 0xE2, CHR 0x80, CHR 0xA8],
      [CHR 0xE2, CHR 0x80, CHR 0xA9], [CHR 0xE2, CHR 0x80, CHR 0xAF],
      [CHR 0xE2, CHR 0x81, CHR 0x9F], [CHR 0xE3, CHR 0x80, CHR 0x80]]"

fun strip_leading :: "string list \<Rightarrow> nat \<Rightarrow> string \<Rightarrow> string" where
  "strip_leading ws 0 s = s"
| "strip_leading ws (Suc n) s =
     (case find (has_prefix s) ws of None \<Rightarrow> s
      | Some w \<Rightarrow> strip_leading ws n (drop (length w) s))"

definition trim_space :: "string \<Rightarrow> string" where
  "trim_space s =
     (let l = strip_leading go_spaces (length s) s
      in rev (strip_leading (map rev go_spaces) (length l) (rev l)))"

lemma has_prefix_iff [go_str]: "has_prefix s p \<longleftrightarrow> (\<exists>t. s = p @ t)"
  by (induction s p rule: has_prefix.induct) auto

lemma has_prefix_append [simp]: "has_prefix (p @ t) p"
  by (auto simp: has_prefix_iff)

lemma has_prefix_self [simp]: "has_prefix p p"
  using has_prefix_append [of p "[]"] by simp

lemma has_suffix_iff [go_str]: "has_suffix s p \<longleftrightarrow> (\<exists>t. s = t @ p)"
proof
  assume "has_suffix s p"
  then obtain t where "rev s = rev p @ t"
    by (auto simp: has_suffix_def has_prefix_iff)
  then have "s = rev t @ p"
    by (metis rev_append rev_rev_ident)
  then show "\<exists>t. s = t @ p" ..
qed (auto simp: has_suffix_def has_prefix_iff)

lemma cut_prefix_Some [go_str]: "cut_prefix s p = Some t \<longleftrightarrow> s = p @ t"
  by (auto simp: cut_prefix_def has_prefix_iff)

lemma cut_prefix_append [simp]: "cut_prefix (p @ t) p = Some t"
  by (simp add: cut_prefix_Some)

lemma split_on_nonempty [simp]: "split_on c s \<noteq> []"
  by (induction s) (auto split: list.splits)

text \<open>Splitting loses nothing: joining the parts with the separator gives the string back.\<close>

lemma join_split: "join_with [c] (split_on c s) = s"
proof (induction s)
  case Nil
  then show ?case by simp
next
  case (Cons x xs)
  obtain w ws where w: "split_on c xs = w # ws"
    by (metis list.exhaust split_on_nonempty)
  with Cons.IH have "join_with [c] (w # ws) = xs" by simp
  with w show ?case by (cases ws) auto
qed

lemma split_on_free: "w \<in> set (split_on c s) \<Longrightarrow> c \<notin> set w"
proof (induction s arbitrary: w)
  case Nil
  then show ?case by simp
next
  case (Cons x xs)
  obtain v vs where "split_on c xs = v # vs"
    by (metis list.exhaust split_on_nonempty)
  with Cons show ?case by (auto split: if_splits)
qed

section \<open>Decimal numbers\<close>

text \<open>
  \<^verbatim>\<open>strconv.FormatUint(n, 10)\<close>, \<^verbatim>\<open>strconv.Itoa\<close> and \<^verbatim>\<open>strconv.ParseUint(s, 10, bits)\<close>,
  which takes digits only and fails on an empty string or a value out of range.
\<close>

definition digit_char :: "nat \<Rightarrow> char" where
  "digit_char d = char_of (48 + d)"

definition is_digit :: "char \<Rightarrow> bool" where
  "is_digit c = (48 \<le> (of_char c :: nat) \<and> (of_char c :: nat) \<le> 57)"

definition digit_val :: "char \<Rightarrow> nat" where
  "digit_val c = of_char c - 48"

fun format_uint :: "nat \<Rightarrow> string" where
  "format_uint n =
     (if n < 10 then [digit_char n] else format_uint (n div 10) @ [digit_char (n mod 10)])"

declare format_uint.simps [simp del]

definition itoa :: "int \<Rightarrow> string" where
  "itoa i = (if i < 0 then ''-'' @ format_uint (nat (- i)) else format_uint (nat i))"

definition digits_val :: "string \<Rightarrow> nat" where
  "digits_val s = foldl (\<lambda>n c. 10 * n + digit_val c) 0 s"

definition parse_uint :: "nat \<Rightarrow> string \<Rightarrow> nat option" where
  "parse_uint bits s =
     (if s \<noteq> [] \<and> list_all is_digit s \<and> digits_val s < 2 ^ bits
      then Some (digits_val s) else None)"

lemma digit_char_nat: "d < 10 \<Longrightarrow> (of_char (digit_char d) :: nat) = 48 + d"
  by (simp add: digit_char_def)

lemma is_digit_digit_char [simp]: "d < 10 \<Longrightarrow> is_digit (digit_char d)"
  by (simp add: is_digit_def digit_char_nat)

lemma digit_val_digit_char [simp]: "d < 10 \<Longrightarrow> digit_val (digit_char d) = d"
  by (simp add: digit_val_def digit_char_nat)

lemma digits_val_snoc: "digits_val (s @ [c]) = 10 * digits_val s + digit_val c"
  by (simp add: digits_val_def)

lemma format_uint_correct:
  "list_all is_digit (format_uint n) \<and> format_uint n \<noteq> [] \<and> digits_val (format_uint n) = n"
proof (induction n rule: format_uint.induct)
  case (1 n)
  show ?case
  proof (cases "n < 10")
    case True
    then show ?thesis by (simp add: format_uint.simps [of n] digits_val_def)
  next
    case False
    with 1 have "list_all is_digit (format_uint (n div 10))"
      and "digits_val (format_uint (n div 10)) = n div 10" by auto
    with False show ?thesis by (simp add: format_uint.simps [of n] digits_val_snoc)
  qed
qed

lemma format_uint_nonempty [simp]: "format_uint n \<noteq> []"
  using format_uint_correct [of n] by simp

lemma format_uint_digits: "c \<in> set (format_uint n) \<Longrightarrow> is_digit c"
  using format_uint_correct [of n] by (auto simp: list_all_iff)

lemma parse_format_uint: "n < 2 ^ bits \<Longrightarrow> parse_uint bits (format_uint n) = Some n"
  using format_uint_correct [of n] by (simp add: parse_uint_def)

lemma parse_uint_bound: "parse_uint bits s = Some n \<Longrightarrow> n < 2 ^ bits"
  by (auto simp: parse_uint_def split: if_splits)

lemma format_uint_inj: "format_uint m = format_uint n \<Longrightarrow> m = n"
  by (metis format_uint_correct)

section \<open>Integer division\<close>

text \<open>Division and remainder of Go round towards zero; the divisor is positive.\<close>

definition trunc_div :: "int \<Rightarrow> int \<Rightarrow> int" where
  "trunc_div a b = sgn a * (\<bar>a\<bar> div b)"

definition trunc_rem :: "int \<Rightarrow> int \<Rightarrow> int" where
  "trunc_rem a b = sgn a * (\<bar>a\<bar> mod b)"

lemma trunc_div_rem: "trunc_div a b * b + trunc_rem a b = a"
proof -
  have "trunc_div a b * b + trunc_rem a b = sgn a * (\<bar>a\<bar> div b * b + \<bar>a\<bar> mod b)"
    by (simp only: trunc_div_def trunc_rem_def distrib_left mult.assoc)
  also have "\<dots> = sgn a * \<bar>a\<bar>" by simp
  also have "\<dots> = a" by (simp add: sgn_mult_abs)
  finally show ?thesis .
qed

lemma trunc_rem_bound: "0 < b \<Longrightarrow> \<bar>trunc_rem a b\<bar> < b"
  by (auto simp: trunc_rem_def abs_mult sgn_if)

section \<open>Instants\<close>

text \<open>
  A \<^verbatim>\<open>time.Time\<close> without its location: the seconds since January 1 of year 1 as the signed
  64-bit value the Go library keeps, and the nanoseconds within the second. \<^verbatim>\<open>time.Unix\<close>
  adds the distance of the two epochs to its argument without an overflow check.
\<close>

datatype gotime = Time (tsec: "64 word") (tnsec: nat)

definition unixToInternal :: "64 word" where
  "unixToInternal = 62135596800"

definition time_unix :: "64 word \<Rightarrow> nat \<Rightarrow> gotime" where
  "time_unix s n = Time (s + unixToInternal) n"

definition time_before :: "gotime \<Rightarrow> gotime \<Rightarrow> bool" where
  "time_before t u =
     (sint (tsec t) < sint (tsec u) \<or> (tsec t = tsec u \<and> tnsec t < tnsec u))"

instantiation gotime :: linorder
begin

definition less_gotime :: "gotime \<Rightarrow> gotime \<Rightarrow> bool" where
  "less_gotime t u = time_before t u"

definition less_eq_gotime :: "gotime \<Rightarrow> gotime \<Rightarrow> bool" where
  "less_eq_gotime t u = (t = u \<or> time_before t u)"

instance
proof
  fix t u v :: gotime
  show "(t < u) = (t \<le> u \<and> \<not> u \<le> t)"
    by (auto simp: less_gotime_def less_eq_gotime_def time_before_def)
  show "t \<le> t" by (simp add: less_eq_gotime_def)
  show "t \<le> u \<Longrightarrow> u \<le> v \<Longrightarrow> t \<le> v"
    by (auto simp: less_eq_gotime_def time_before_def)
  show "t \<le> u \<Longrightarrow> u \<le> t \<Longrightarrow> t = u"
    by (auto simp: less_eq_gotime_def time_before_def)
  have "tsec t = tsec u" if "sint (tsec t) = sint (tsec u)"
    using that by (metis uint_sint word_uint_eqI)
  then show "t \<le> u \<or> u \<le> t"
    by (cases t; cases u) (auto simp: less_eq_gotime_def time_before_def)
qed

end

lemma time_before_less: "time_before t u \<longleftrightarrow> t < u"
  by (simp add: less_gotime_def)

lemma time_before_irrefl [simp]: "\<not> time_before t t"
  by (simp add: time_before_def)

lemma time_before_trans: "time_before t u \<Longrightarrow> time_before u v \<Longrightarrow> time_before t v"
  by (auto simp: time_before_def)

section \<open>Buffered channels as semaphores\<close>

text \<open>
  The daemon bounds its resources with \<^verbatim>\<open>chan struct{}\<close> values: a slot is taken with a
  \<^verbatim>\<open>select\<close> that has a \<^verbatim>\<open>default\<close> branch, so it never blocks, and given back with a
  receive, which blocks (\<^const>\<open>None\<close>) while the channel is empty.
\<close>

record sem =
  sem_cap :: nat
  sem_used :: nat

definition make_sem :: "nat \<Rightarrow> sem" where
  "make_sem n = \<lparr>sem_cap = n, sem_used = 0\<rparr>"

definition sem_try :: "sem \<Rightarrow> sem option" where
  "sem_try s = (if sem_used s < sem_cap s then Some (s\<lparr>sem_used := Suc (sem_used s)\<rparr>) else None)"

definition sem_recv :: "sem \<Rightarrow> sem option" where
  "sem_recv s = (case sem_used s of 0 \<Rightarrow> None | Suc n \<Rightarrow> Some (s\<lparr>sem_used := n\<rparr>))"

text \<open>
  The contract of a pool of slots. A client that gives back only what it took never finds the
  pool over its limit and never blocks when it gives a slot back.
\<close>

locale slot_pool =
  fixes take_slot :: "'s \<Rightarrow> 's option"
    and give_slot :: "'s \<Rightarrow> 's option"
    and in_use :: "'s \<Rightarrow> nat"
    and limit :: "'s \<Rightarrow> nat"
  assumes take_some: "take_slot s = Some t \<Longrightarrow> in_use t = Suc (in_use s) \<and> limit t = limit s"
    and take_none: "take_slot s = None \<longleftrightarrow> limit s \<le> in_use s"
    and give_some: "give_slot s = Some t \<Longrightarrow> in_use s = Suc (in_use t) \<and> limit t = limit s"
    and give_none: "give_slot s = None \<longleftrightarrow> in_use s = 0"
begin

lemma take_below: "take_slot s = Some t \<Longrightarrow> in_use t \<le> limit t"
  using take_some [of s t] take_none [of s] by fastforce

lemma give_after_take: "take_slot s = Some t \<Longrightarrow> \<exists>u. give_slot t = Some u \<and> in_use u = in_use s"
  using take_some [of s t] give_none [of t] give_some [of t] by fastforce

lemma take_available: "in_use s < limit s \<Longrightarrow> \<exists>t. take_slot s = Some t"
  using take_none [of s] by (cases "take_slot s") auto

end

interpretation go_sem: slot_pool sem_try sem_recv sem_used sem_cap
  by unfold_locales (auto simp: sem_try_def sem_recv_def split: if_splits nat.splits)

section \<open>Transition systems\<close>

text \<open>
  The contract of a component that runs concurrently: its atomic steps, the states it can start
  in and an invariant. What the invariant says holds in every state a run can reach.
\<close>

locale transition_system =
  fixes start :: "'s \<Rightarrow> bool"
    and step :: "'s \<Rightarrow> 's \<Rightarrow> bool"
    and inv :: "'s \<Rightarrow> bool"
  assumes inv_start: "start s \<Longrightarrow> inv s"
    and inv_step: "inv s \<Longrightarrow> step s t \<Longrightarrow> inv t"
begin

lemma inv_steps: "step\<^sup>*\<^sup>* s t \<Longrightarrow> inv s \<Longrightarrow> inv t"
  by (induction rule: rtranclp_induct) (auto intro: inv_step)

lemma inv_reachable: "start s \<Longrightarrow> step\<^sup>*\<^sup>* s t \<Longrightarrow> inv t"
  by (blast intro: inv_start inv_steps)

end

end
