(* ===== verification/Audit_Log.thy ===== *)
theory Audit_Log
  imports Nokkud_Prelude
begin

text \<open>
  The audit events of \<^verbatim>\<open>internal/sshd/audit.go\<close> and the errors the SSH server raises. An
  error is a value: where the code formats a text, the model keeps the constructor and the
  arguments of the text. \<open>ErrPanic\<close> is a panic, which \<^verbatim>\<open>recoverPanic\<close> turns into a dropped
  connection.
\<close>

datatype sshd_error =
    ErrNoCertificates
  | ErrCertType "32 word"
  | ErrUnrecognizedAuthority
  | ErrNoAccessRules string
  | ErrPrincipalNotAuthorized string
  | ErrCheckCert string
  | ErrUserNotFound string
  | ErrBadPasswdEntry string
  | ErrLoginsDisabled
  | ErrLoginsDisabledMsg string
  | ErrGroups string
  | ErrNotRecorded string
  | ErrSizeLimit
  | ErrPanic

datatype eventType =
    eventAuthSuccess | eventAuthFailure | eventSessionStart | eventSessionEnd | eventCommand
  | eventSubsystem | eventForward | eventRemoteForward | eventRecordingDegraded

fun event_name :: "eventType \<Rightarrow> string" where
  "event_name eventAuthSuccess = ''auth_success''"
| "event_name eventAuthFailure = ''auth_failure''"
| "event_name eventSessionStart = ''session_start''"
| "event_name eventSessionEnd = ''session_end''"
| "event_name eventCommand = ''command''"
| "event_name eventSubsystem = ''subsystem''"
| "event_name eventForward = ''forward''"
| "event_name eventRemoteForward = ''remote_forward''"
| "event_name eventRecordingDegraded = ''recording_degraded''"

text \<open>\<^verbatim>\<open>ssh.ConnMetadata\<close>: the account asked for, the two addresses as text, the client's version.\<close>

record conn_meta =
  cm_user :: string
  cm_remote :: string
  cm_local :: string
  cm_client :: string

record auditEvent =
  evType :: eventType
  evUser :: string
  evRemote :: string
  evClient :: string
  evPrincipal :: string
  evSessionID :: string
  evCommand :: string
  evTarget :: string
  evError :: "sshd_error option"
  evExitCode :: int

definition connEvent :: "conn_meta \<Rightarrow> eventType \<Rightarrow> auditEvent" where
  "connEvent conn typ =
     \<lparr>evType = typ, evUser = cm_user conn, evRemote = cm_remote conn, evClient = cm_client conn,
      evPrincipal = '''', evSessionID = '''', evCommand = '''', evTarget = '''', evError = None,
      evExitCode = 0\<rparr>"

datatype log_value = LStr string | LErr sshd_error | LInt int

text \<open>One audit line: the type first, then every field that is not empty, in a fixed order.\<close>

definition str_field :: "string \<Rightarrow> string \<Rightarrow> (string \<times> log_value) list" where
  "str_field k v = (if v \<noteq> '''' then [(k, LStr v)] else [])"

definition emit_args :: "auditEvent \<Rightarrow> (string \<times> log_value) list" where
  "emit_args ev =
     [(''type'', LStr (event_name (evType ev)))]
     @ str_field ''user'' (evUser ev) @ str_field ''remote'' (evRemote ev)
     @ str_field ''client'' (evClient ev) @ str_field ''principal'' (evPrincipal ev)
     @ str_field ''session_id'' (evSessionID ev) @ str_field ''command'' (evCommand ev)
     @ str_field ''target'' (evTarget ev)
     @ (case evError ev of None \<Rightarrow> [] | Some e \<Rightarrow> [(''error'', LErr e)])
     @ (if evType ev = eventSessionEnd then [(''exit_code'', LInt (evExitCode ev))] else [])"

lemma connEvent_sel [simp]:
  "evType (connEvent c t) = t" "evUser (connEvent c t) = cm_user c"
  "evError (connEvent c t) = None" "evPrincipal (connEvent c t) = ''''"
  by (simp_all add: connEvent_def)

text \<open>A line names its type, and the exit code stands on a line exactly when a session ends.\<close>

lemma emit_args_type: "map_of (emit_args ev) ''type'' = Some (LStr (event_name (evType ev)))"
  by (simp add: emit_args_def)

lemma emit_args_exit_code:
  "map_of (emit_args ev) ''exit_code'' =
     (if evType ev = eventSessionEnd then Some (LInt (evExitCode ev)) else None)"
proof -
  have "map_of (str_field k v) ''exit_code'' = None" if "k \<noteq> ''exit_code''" for k v
    using that by (simp add: str_field_def)
  then show ?thesis
    by (cases "evError ev") (simp_all add: emit_args_def map_add_Some_iff map_add_def)
qed

end
