(* ===== verification/Account.thy ===== *)
theory Account
  imports Audit_Log
begin

text \<open>
  The local account of a login, \<^verbatim>\<open>internal/sshd/account.go\<close>. The outputs of the \<^verbatim>\<open>getent\<close>
  and \<^verbatim>\<open>id\<close> programs, the content of the nologin file and the daemon's own environment are
  arguments: \<^const>\<open>None\<close> is a program that failed or a file that cannot be read.
\<close>

record account =
  acName :: string
  acUID :: "32 word"
  acGID :: "32 word"
  acHome :: string
  acShell :: string

definition loginAllowed :: "account \<Rightarrow> string option \<Rightarrow> sshd_error option" where
  "loginAllowed a nologin =
     (if acUID a = 0 then None
      else case nologin of None \<Rightarrow> None
      | Some msg \<Rightarrow>
          if trim_space msg = [] then Some ErrLoginsDisabled
          else Some (ErrLoginsDisabledMsg (trim_space msg)))"

definition cmp_or :: "string \<Rightarrow> string \<Rightarrow> string" where
  "cmp_or a b = (if a \<noteq> '''' then a else b)"

definition lookupAccount :: "(string \<Rightarrow> string option) \<Rightarrow> string \<Rightarrow> sshd_error + account" where
  "lookupAccount getent name =
     (case getent name of None \<Rightarrow> Inl (ErrUserNotFound name)
      | Some out \<Rightarrow>
          let parts = split_on CHR '':'' (trim_space out) in
          if length parts \<noteq> 7 \<or> parts ! 0 \<noteq> name then Inl (ErrUserNotFound name)
          else case (parse_uint 32 (parts ! 2), parse_uint 32 (parts ! 3)) of
            (Some uid, Some gid) \<Rightarrow>
              Inr \<lparr>acName = name, acUID = of_nat uid, acGID = of_nat gid, acHome = parts ! 5,
                   acShell = cmp_or (parts ! 6) ''/bin/sh''\<rparr>
          | _ \<Rightarrow> Inl (ErrBadPasswdEntry name))"

text \<open>
  \<^verbatim>\<open>strings.FieldsSeq\<close> cuts at runs of white space; here the text is cut before every white
  space character and the empty fields are dropped.
\<close>

fun fields_from :: "nat \<Rightarrow> string \<Rightarrow> string \<Rightarrow> string list" where
  "fields_from 0 cur s = [cur]"
| "fields_from (Suc n) cur [] = [cur]"
| "fields_from (Suc n) cur (c # s) =
     (case find (has_prefix (c # s)) go_spaces of
        Some w \<Rightarrow> cur # fields_from n [] (drop (length w) (c # s))
      | None \<Rightarrow> fields_from n (cur @ [c]) s)"

definition fields_of :: "string \<Rightarrow> string list" where
  "fields_of s = filter (\<lambda>w. w \<noteq> []) (fields_from (Suc (length s)) [] s)"

fun parse_ids :: "string list \<Rightarrow> 32 word list option" where
  "parse_ids [] = Some []"
| "parse_ids (g # gs) =
     (case parse_uint 32 g of None \<Rightarrow> None
      | Some i \<Rightarrow> map_option ((#) (of_nat i)) (parse_ids gs))"

definition groupIDs :: "(string \<Rightarrow> string option) \<Rightarrow> account \<Rightarrow> sshd_error + 32 word list" where
  "groupIDs id_G a =
     (case id_G (acName a) of None \<Rightarrow> Inl (ErrGroups (acName a))
      | Some out \<Rightarrow> (case parse_ids (fields_of out) of None \<Rightarrow> Inl (ErrGroups (acName a))
                    | Some ids \<Rightarrow> Inr ids))"

definition cmdEnv :: "(string \<rightharpoonup> string) \<Rightarrow> account \<Rightarrow> string list" where
  "cmdEnv os_env a =
     [''HOME='' @ acHome a, ''USER='' @ acName a, ''LOGNAME='' @ acName a, ''SHELL='' @ acShell a,
      ''PATH=/usr/local/bin:/usr/bin:/bin:/usr/local/sbin:/usr/sbin:/sbin'']
     @ concat (map (\<lambda>key. case os_env key of None \<Rightarrow> [] | Some val \<Rightarrow> [key @ ''='' @ val])
         [''LANG'', ''LC_ALL'', ''LC_CTYPE'', ''TZ'', ''MAIL''])"

text \<open>\<^verbatim>\<open>syscall.SysProcAttr\<close> as far as the daemon sets it.\<close>

record credential =
  crUid :: "32 word"
  crGid :: "32 word"
  crGroups :: "32 word list"

record sys_proc_attr =
  Setsid :: bool
  Setctty :: bool
  Credential :: "credential option"

definition sysProcAttr ::
    "nat \<Rightarrow> (string \<Rightarrow> string option) \<Rightarrow> account \<Rightarrow> sshd_error + sys_proc_attr"
where
  "sysProcAttr euid id_G a =
     (let attr = \<lparr>Setsid = True, Setctty = False, Credential = None\<rparr> in
      if euid \<noteq> 0 then Inr attr
      else case groupIDs id_G a of Inl e \<Rightarrow> Inl e
      | Inr groups \<Rightarrow>
          Inr (attr\<lparr>Credential := Some \<lparr>crUid = acUID a, crGid = acGID a, crGroups = groups\<rparr>\<rparr>))"

section \<open>What the functions guarantee\<close>

lemma lookupAccount_name: "lookupAccount getent u = Inr a \<Longrightarrow> acName a = u"
  by (auto simp: lookupAccount_def Let_def split: option.splits if_splits)

lemma lookupAccount_shell: "lookupAccount getent u = Inr a \<Longrightarrow> acShell a \<noteq> ''''"
  by (auto simp: lookupAccount_def Let_def cmp_or_def split: option.splits if_splits)

lemma loginAllowed_root: "acUID a = 0 \<Longrightarrow> loginAllowed a f = None"
  by (simp add: loginAllowed_def)

lemma loginAllowed_iff: "loginAllowed a f = None \<longleftrightarrow> acUID a = 0 \<or> f = None"
  by (auto simp: loginAllowed_def split: option.splits)

text \<open>
  Whatever \<^verbatim>\<open>getent\<close> prints for a passwd entry, its fields come back: the entry of an account
  is read as it was written, and an entry for another name, or with another number of fields, is
  refused.
\<close>

lemma split_on_join:
  assumes "ws \<noteq> []" "\<And>w. w \<in> set ws \<Longrightarrow> c \<notin> set w"
  shows "split_on c (join_with [c] ws) = ws"
proof -
  have plain: "split_on c w = [w]" if "c \<notin> set w" for w
    using that by (induction w) auto
  have pre: "split_on c (w @ c # s) = w # split_on c s" if "c \<notin> set w" for w s
    using that by (induction w) auto
  show ?thesis
    using assms by (induction "[c]" ws rule: join_with.induct) (auto simp: plain pre)
qed

lemma lookupAccount_entry:
  assumes out: "getent u = Some out" "trim_space out = join_with '':'' [u, pw, format_uint i, format_uint g, gecos, home, shell]"
    and free: "\<And>w. w \<in> {u, pw, gecos, home, shell} \<Longrightarrow> CHR '':'' \<notin> set w"
    and ids: "i < 2 ^ 32" "g < 2 ^ 32"
  shows "lookupAccount getent u =
    Inr \<lparr>acName = u, acUID = of_nat i, acGID = of_nat g, acHome = home,
         acShell = (if shell = '''' then ''/bin/sh'' else shell)\<rparr>"
proof -
  have num: "CHR '':'' \<notin> set (format_uint n)" for n
    using format_uint_digits [of "CHR '':''" n] by (auto simp: is_digit_def)
  have "split_on CHR '':'' (trim_space out) = [u, pw, format_uint i, format_uint g, gecos, home, shell]"
    unfolding out(2) using free num by (intro split_on_join) auto
  with out(1) ids show ?thesis
    by (simp add: lookupAccount_def cmp_or_def parse_format_uint)
qed

end
