(* ===== verification/Go_Net.thy ===== *)
theory Go_Net
  imports Nokkud_Prelude
begin

text \<open>
  The part of the Go packages \<^verbatim>\<open>net/netip\<close> and \<^verbatim>\<open>net\<close> the daemon computes with: parsing and
  classifying addresses, and joining and splitting a host and a port. An address is the zero
  value, an IPv4 address or an IPv6 address with its zone.
\<close>

datatype netip_addr = AddrZero | Addr4 "32 word" | Addr6 "128 word" string

section \<open>Classification\<close>

definition is4 :: "netip_addr \<Rightarrow> bool" where
  "is4 a = (case a of Addr4 _ \<Rightarrow> True | _ \<Rightarrow> False)"

definition is6 :: "netip_addr \<Rightarrow> bool" where
  "is6 a = (case a of Addr6 _ _ \<Rightarrow> True | _ \<Rightarrow> False)"

definition unmap :: "netip_addr \<Rightarrow> netip_addr" where
  "unmap a =
     (case a of Addr6 w z \<Rightarrow> if drop_bit 32 w = 0xFFFF then Addr4 (ucast w) else a | _ \<Rightarrow> a)"

definition is_loopback :: "netip_addr \<Rightarrow> bool" where
  "is_loopback a =
     (case unmap a of Addr4 w \<Rightarrow> drop_bit 24 w = 127 | Addr6 w z \<Rightarrow> w = 1 | AddrZero \<Rightarrow> False)"

definition is_link_local_unicast :: "netip_addr \<Rightarrow> bool" where
  "is_link_local_unicast a =
     (case unmap a of Addr4 w \<Rightarrow> drop_bit 16 w = 0xA9FE | Addr6 w z \<Rightarrow> drop_bit 118 w = 0x3FA
      | AddrZero \<Rightarrow> False)"

definition is_multicast :: "netip_addr \<Rightarrow> bool" where
  "is_multicast a =
     (case unmap a of Addr4 w \<Rightarrow> drop_bit 28 w = 0xE | Addr6 w z \<Rightarrow> drop_bit 120 w = 0xFF
      | AddrZero \<Rightarrow> False)"

definition is_unspecified :: "netip_addr \<Rightarrow> bool" where
  "is_unspecified a = (a = Addr4 0 \<or> a = Addr6 0 '''')"

text \<open>\<^verbatim>\<open>netip.PrefixFrom(a, 64).Masked().Addr()\<close> on an IPv6 address; the zone is dropped.\<close>

definition mask64 :: "netip_addr \<Rightarrow> netip_addr" where
  "mask64 a = (case a of Addr6 w z \<Rightarrow> Addr6 (push_bit 64 (drop_bit 64 w)) '''' | _ \<Rightarrow> a)"

section \<open>Parsing\<close>

text \<open>
  \<^verbatim>\<open>parseIPv4Fields\<close>: four fields of digits, each at most 255 and without a leading zero.
\<close>

definition parse_octet :: "string \<Rightarrow> nat option" where
  "parse_octet s =
     (if s \<noteq> [] \<and> list_all is_digit s \<and> (length s = 1 \<or> hd s \<noteq> CHR ''0'') \<and> digits_val s \<le> 255
      then Some (digits_val s) else None)"

definition parse_ipv4_fields :: "string \<Rightarrow> nat list option" where
  "parse_ipv4_fields s =
     (case map parse_octet (split_on CHR ''.'' s) of
        [Some a, Some b, Some c, Some d] \<Rightarrow> Some [a, b, c, d]
      | _ \<Rightarrow> None)"

definition be_val :: "nat list \<Rightarrow> nat" where
  "be_val bs = foldl (\<lambda>n b. 256 * n + b) 0 bs"

definition hex_val :: "char \<Rightarrow> nat option" where
  "hex_val c =
     (let n = (of_char c :: nat) in
      if 48 \<le> n \<and> n \<le> 57 then Some (n - 48)
      else if 97 \<le> n \<and> n \<le> 102 then Some (n - 87)
      else if 65 \<le> n \<and> n \<le> 70 then Some (n - 55) else None)"

definition hex_digits_val :: "string \<Rightarrow> nat" where
  "hex_digits_val s = foldl (\<lambda>n c. 16 * n + the (hex_val c)) 0 s"

text \<open>
  The loop of \<^verbatim>\<open>parseIPv6\<close>: the bytes read so far, the position of the ellipsis, the rest of
  the text. One round reads a group of one to four hexadecimal digits, or a trailing IPv4
  address, and what follows it. There are at most eight rounds, the fuel of the function.
\<close>

fun parse_groups :: "nat \<Rightarrow> nat list \<Rightarrow> nat option \<Rightarrow> string \<Rightarrow> (nat list \<times> nat option \<times> string) option"
where
  "parse_groups 0 ip ell s = Some (ip, ell, s)"
| "parse_groups (Suc n) ip ell s =
     (let h = takeWhile (\<lambda>c. hex_val c \<noteq> None) s; r = drop (length h) s in
      if h = [] \<or> length h > 4 then None
      else if r \<noteq> [] \<and> hd r = CHR ''.'' then
        (if ell = None \<and> length ip \<noteq> 12 then None
         else if length ip + 4 > 16 then None
         else case parse_ipv4_fields s of None \<Rightarrow> None | Some f \<Rightarrow> Some (ip @ f, ell, []))
      else let v = hex_digits_val h; ip' = ip @ [v div 256, v mod 256] in
        (case r of [] \<Rightarrow> Some (ip', ell, [])
         | c # s1 \<Rightarrow>
             if c \<noteq> CHR '':'' then None
             else if s1 = [] then None
             else if hd s1 = CHR '':'' then
               (if ell \<noteq> None then None
                else if tl s1 = [] then Some (ip', Some (length ip'), [])
                else parse_groups n ip' (Some (length ip')) (tl s1))
             else parse_groups n ip' ell s1))"

definition finish_ipv6 :: "string \<Rightarrow> (nat list \<times> nat option \<times> string) option \<Rightarrow> netip_addr option" where
  "finish_ipv6 zone st =
     (case st of None \<Rightarrow> None
      | Some (ip, ell, rest) \<Rightarrow>
          if rest \<noteq> [] then None
          else if length ip < 16 then
            (case ell of None \<Rightarrow> None
             | Some e \<Rightarrow> Some (Addr6 (of_nat (be_val (take e ip @ replicate (16 - length ip) 0 @ drop e ip))) zone))
          else if ell \<noteq> None then None
          else Some (Addr6 (of_nat (be_val ip)) zone))"

definition parse_ipv6 :: "string \<Rightarrow> netip_addr option" where
  "parse_ipv6 inp =
     (let s = takeWhile (\<lambda>c. c \<noteq> CHR ''%'') inp; z = drop (length s) inp; zone = tl z in
      if z \<noteq> [] \<and> zone = [] then None
      else if has_prefix s ''::'' then
        (if length s = 2 then Some (Addr6 0 zone)
         else finish_ipv6 zone (parse_groups 8 [] (Some 0) (drop 2 s)))
      else finish_ipv6 zone (parse_groups 8 [] None s))"

definition parse_addr :: "string \<Rightarrow> netip_addr option" where
  "parse_addr s =
     (case find (\<lambda>c. c = CHR ''.'' \<or> c = CHR '':'' \<or> c = CHR ''%'') s of
        None \<Rightarrow> None
      | Some c \<Rightarrow>
          if c = CHR ''.'' then map_option (\<lambda>f. Addr4 (of_nat (be_val f))) (parse_ipv4_fields s)
          else if c = CHR '':'' then parse_ipv6 s else None)"

text \<open>The text before and after the last occurrence of a byte.\<close>

definition split_last :: "char \<Rightarrow> string \<Rightarrow> (string \<times> string) option" where
  "split_last c s =
     (if c \<in> set s
      then Some (rev (tl (dropWhile (\<lambda>x. x \<noteq> c) (rev s))), rev (takeWhile (\<lambda>x. x \<noteq> c) (rev s)))
      else None)"

definition parse_addr_port :: "string \<Rightarrow> (netip_addr \<times> nat) option" where
  "parse_addr_port s =
     (case split_last CHR '':'' s of None \<Rightarrow> None
      | Some (ip, port) \<Rightarrow>
          if ip = [] \<or> port = [] then None
          else let v6 = (hd ip = CHR ''['') in
            if v6 \<and> (length ip < 2 \<or> last ip \<noteq> CHR '']'') then None
            else (case parse_uint 16 port of None \<Rightarrow> None
              | Some p \<Rightarrow>
                  (case parse_addr (if v6 then butlast (tl ip) else ip) of None \<Rightarrow> None
                   | Some a \<Rightarrow> if v6 \<and> is4 a \<or> \<not> v6 \<and> is6 a then None else Some (a, p))))"

section \<open>Printing\<close>

text \<open>
  \<^verbatim>\<open>Addr.String\<close>. An IPv6 address shortens its first longest run of at least two zero groups.
\<close>

fun format_hex :: "nat \<Rightarrow> string" where
  "format_hex n =
     (if n < 16 then [''0123456789abcdef'' ! n] else format_hex (n div 16) @ [''0123456789abcdef'' ! (n mod 16)])"

declare format_hex.simps [simp del]

definition octets4 :: "32 word \<Rightarrow> nat list" where
  "octets4 w = map (\<lambda>i. unat (drop_bit (8 * i) w) mod 256) [3, 2, 1, 0]"

definition groups6 :: "128 word \<Rightarrow> nat list" where
  "groups6 w = map (\<lambda>i. unat (drop_bit (16 * i) w) mod 65536) [7, 6, 5, 4, 3, 2, 1, 0]"

definition zero_run :: "nat list \<Rightarrow> nat \<Rightarrow> nat" where
  "zero_run gs i = length (takeWhile (\<lambda>g. g = 0) (drop i gs))"

definition longest_zero_run :: "nat list \<Rightarrow> (nat \<times> nat) option" where
  "longest_zero_run gs =
     foldl (\<lambda>best i. let l = zero_run gs i in
        if l \<ge> 2 \<and> l > (case best of None \<Rightarrow> 0 | Some (j, n) \<Rightarrow> n) then Some (i, l) else best)
       None [0, 1, 2, 3, 4, 5, 6, 7]"

definition addr4_string :: "32 word \<Rightarrow> string" where
  "addr4_string w = join_with ''.'' (map format_uint (octets4 w))"

definition addr_string :: "netip_addr \<Rightarrow> string" where
  "addr_string a =
     (case a of AddrZero \<Rightarrow> ''invalid IP''
      | Addr4 w \<Rightarrow> addr4_string w
      | Addr6 w z \<Rightarrow>
          (if drop_bit 32 w = 0xFFFF then ''::ffff:'' @ addr4_string (ucast w)
           else let gs = groups6 w in
             (case longest_zero_run gs of
                None \<Rightarrow> join_with '':'' (map format_hex gs)
              | Some (i, n) \<Rightarrow>
                  join_with '':'' (map format_hex (take i gs)) @ ''::''
                  @ join_with '':'' (map format_hex (drop (i + n) gs))))
          @ (if z = '''' then '''' else ''%'' @ z))"

section \<open>Hosts and ports\<close>

definition join_host_port :: "string \<Rightarrow> string \<Rightarrow> string" where
  "join_host_port host port =
     (if CHR '':'' \<in> set host then ''['' @ host @ '']:'' @ port else host @ '':'' @ port)"

definition split_host_port :: "string \<Rightarrow> (string \<times> string) option" where
  "split_host_port hp =
     (case split_last CHR '':'' hp of None \<Rightarrow> None
      | Some (before, port) \<Rightarrow>
          if hd hp = CHR ''['' then
            (if CHR '']'' \<notin> set hp then None
             else let host = tl (takeWhile (\<lambda>c. c \<noteq> CHR '']'') hp);
                      end1 = Suc (length (takeWhile (\<lambda>c. c \<noteq> CHR '']'') hp)) in
               if end1 \<noteq> length before then None
               else if CHR ''['' \<in> set (tl hp) \<or> CHR '']'' \<in> set (drop end1 hp) then None
               else Some (host, port))
          else if CHR '':'' \<in> set before then None
          else if CHR ''['' \<in> set hp \<or> CHR '']'' \<in> set hp then None
          else Some (before, port))"

lemma split_last_append: "c \<notin> set p \<Longrightarrow> split_last c (h @ c # p) = Some (h, p)"
proof -
  assume "c \<notin> set p"
  then have "dropWhile (\<lambda>x. x \<noteq> c) (rev p @ c # rev h) = c # rev h"
    and "takeWhile (\<lambda>x. x \<noteq> c) (rev p @ c # rev h) = rev p"
    by (auto simp: dropWhile_append takeWhile_append)
  then show ?thesis by (simp add: split_last_def)
qed

text \<open>A host without brackets and a port without separators survive the round trip.\<close>

lemma split_join_host_port:
  assumes "CHR ''['' \<notin> set h" "CHR '']'' \<notin> set h" "list_all is_digit p"
  shows "split_host_port (join_host_port h p) = Some (h, p)"
proof -
  have p: "CHR '':'' \<notin> set p" "CHR ''['' \<notin> set p" "CHR '']'' \<notin> set p"
    using assms(3) by (auto simp: list_all_iff is_digit_def)
  have sl: "split_last CHR '':'' (h @ CHR '':'' # p) = Some (h, p)"
    "split_last CHR '':'' ((CHR ''['' # h @ '']'') @ CHR '':'' # p) = Some (CHR ''['' # h @ '']'', p)"
    using p(1) by (rule split_last_append)+
  show ?thesis
  proof (cases "CHR '':'' \<in> set h")
    case True
    have tw: "takeWhile (\<lambda>c. c \<noteq> CHR '']'') (h @ CHR '']'' # CHR '':'' # p) = h"
      using assms(2) by (auto simp: takeWhile_append)
    with True sl(2) assms p show ?thesis
      by (simp add: split_host_port_def join_host_port_def Let_def)
  next
    case False
    with sl(1) assms p show ?thesis
      by (cases h) (auto simp: split_host_port_def join_host_port_def)
  qed
qed

lemma join_host_port_inj:
  assumes "join_host_port h p = join_host_port h p'"
  shows "p = p'"
  using assms by (auto simp: join_host_port_def split: if_splits)

text \<open>What evaluates the parsers on a concrete text.\<close>

lemmas net_eval = parse_addr_port_def parse_addr_def parse_ipv4_fields_def parse_octet_def
  parse_ipv6_def finish_ipv6_def be_val_def hex_val_def hex_digits_val_def split_last_def
  parse_uint_def is_digit_def digits_val_def digit_val_def Let_def is4_def is6_def

end
