(* ===== verification/Sshd_Types.thy ===== *)
theory Sshd_Types
  imports Account Go_Net
begin

text \<open>
  The data of the SSH server, \<^verbatim>\<open>internal/sshd\<close>: certificates and permissions as the ssh
  package hands them over, the policy, and the \<^verbatim>\<open>Server\<close> struct of \<^verbatim>\<open>server.go\<close>.
\<close>

text \<open>
  A certificate in its parsed form. A key is known by its wire form (\<^verbatim>\<open>Marshal\<close>); the signature
  key is \<^const>\<open>None\<close> when the pointer is nil.
\<close>

record certificate =
  certKey :: bytes
  certType :: "32 word"
  KeyId :: string
  ValidPrincipals :: "string list"
  ValidAfter :: "64 word"
  ValidBefore :: "64 word"
  certCriticalOptions :: "string \<rightharpoonup> string"
  certExtensions :: "string \<rightharpoonup> string"
  SignatureKey :: "bytes option"

definition UserCert :: "32 word" where "UserCert = 1"
definition HostCert :: "32 word" where "HostCert = 2"
definition CertTimeInfinity :: "64 word" where "CertTimeInfinity = - 1"

datatype public_key = PlainKey bytes | CertKey certificate

record permissions =
  CriticalOptions :: "string \<rightharpoonup> string"
  Extensions :: "string \<rightharpoonup> string"
  ExtraAccount :: "account option"

text \<open>Reading a Go map gives the zero value for a missing key.\<close>

definition map_get :: "(string \<rightharpoonup> string) \<Rightarrow> string \<Rightarrow> string" where
  "map_get m k = (case m k of None \<Rightarrow> '''' | Some v \<Rightarrow> v)"

record policy =
  Record :: bool
  AllowForwarding :: bool
  AllowAgentForwarding :: bool
  GatewayPorts :: bool

definition DefaultPolicy :: policy where
  "DefaultPolicy =
     \<lparr>Record = True, AllowForwarding = True, AllowAgentForwarding = True, GatewayPorts = False\<rparr>"

text \<open>An authenticated connection; \<open>sc_open\<close> is false once it was closed.\<close>

record server_conn =
  sc_meta :: conn_meta
  sc_perms :: permissions
  sc_open :: bool

datatype host_signer = KeySigner bytes | CertSigner certificate bytes

record server =
  srvPolicy :: policy
  conns :: sem
  startups :: sem
  localStartups :: sem
  sourceStartups :: "netip_addr \<rightharpoonup> int"
  maxChannels :: nat
  maxRecording :: nat
  live :: "nat \<rightharpoonup> server_conn"
  hostKey :: bytes
  cfg :: host_signer
  trustedCAs :: "bytes set"
  retiredCAs :: "bytes \<rightharpoonup> gotime"
  auditLog :: "auditEvent list"

definition emit :: "server \<Rightarrow> auditEvent \<Rightarrow> server" where
  "emit s ev = s\<lparr>auditLog := auditLog s @ [ev]\<rparr>"

lemma emit_frame [simp]:
  "srvPolicy (emit s ev) = srvPolicy s" "conns (emit s ev) = conns s"
  "startups (emit s ev) = startups s" "localStartups (emit s ev) = localStartups s"
  "sourceStartups (emit s ev) = sourceStartups s" "live (emit s ev) = live s"
  "trustedCAs (emit s ev) = trustedCAs s" "retiredCAs (emit s ev) = retiredCAs s"
  "auditLog (emit s ev) = auditLog s @ [ev]" "maxChannels (emit s ev) = maxChannels s"
  "maxRecording (emit s ev) = maxRecording s"
  "cfg (emit s ev) = cfg s"
  by (simp_all add: emit_def)

text \<open>
  \<^verbatim>\<open>certExt\<close>: an extension that is absent, or a connection without permissions, means no.
\<close>

definition certExt :: "permissions option \<Rightarrow> string \<Rightarrow> bool" where
  "certExt perms name = (case perms of None \<Rightarrow> False | Some p \<Rightarrow> Extensions p name \<noteq> None)"

end
