(* ===== verification/State_Cache.thy ===== *)
theory State_Cache
  imports Nokkud_Prelude
begin

text \<open>
  The access list of \<^verbatim>\<open>internal/state\<close>: the check of a user name
  (\<^verbatim>\<open>principal.go\<close>), the cache of principals, CA keys and daemon configuration
  (\<^verbatim>\<open>cache.go\<close>) and the persisted enrollment (\<^verbatim>\<open>config.go\<close>). Each method of the cache runs
  under its mutex, so it is one atomic function on the cache's data.
\<close>

section \<open>User names\<close>

text \<open>
  \<^verbatim>\<open>posixUserRE\<close> is \<^verbatim>\<open>^[A-Za-z_][A-Za-z0-9._-]*\$?$\<close>: a first byte, a run of further bytes,
  then nothing or one dollar sign.
\<close>

definition in_range :: "char \<Rightarrow> char \<Rightarrow> char \<Rightarrow> bool" where
  "in_range lo hi c = ((of_char lo :: nat) \<le> of_char c \<and> (of_char c :: nat) \<le> of_char hi)"

definition user_first :: "char \<Rightarrow> bool" where
  "user_first c = (in_range CHR ''A'' CHR ''Z'' c \<or> in_range CHR ''a'' CHR ''z'' c \<or> c = CHR ''_'')"

definition user_rest :: "char \<Rightarrow> bool" where
  "user_rest c =
     (user_first c \<or> in_range CHR ''0'' CHR ''9'' c \<or> c = CHR ''.'' \<or> c = CHR ''-'')"

definition posixUserRE :: "string \<Rightarrow> bool" where
  "posixUserRE s =
     (case s of [] \<Rightarrow> False
      | c # cs \<Rightarrow> user_first c \<and> (let r = dropWhile user_rest cs in r = [] \<or> r = ''$''))"

definition validatePrincipal :: "string \<Rightarrow> bool" where
  "validatePrincipal u = (\<not> (length u > 32 \<or> \<not> posixUserRE u))"

section \<open>The synced configuration and the cache\<close>

text \<open>
  The messages of the control protocol, with the fields the daemon reads. An optional boolean
  carries presence; a retired CA key carries the deadline \<^verbatim>\<open>GetTrustedUntil().AsTime()\<close>.
\<close>

record daemon_config =
  RecordSessions :: "bool option"
  CfgAllowForwarding :: "bool option"
  CfgAllowAgentForwarding :: "bool option"
  CfgGatewayPorts :: "bool option"
  Ephemeral :: bool

record retired_ca_key =
  PublicKey :: string
  TrustedUntil :: gotime

type_synonym principal_map = "string \<rightharpoonup> string list"

record cacheJSON =
  Principals :: principal_map
  StateVersion :: int
  DaemonConfig :: "daemon_config option"
  CA :: string
  RetiredCAs :: "retired_ca_key list"

definition NewCache :: cacheJSON where
  "NewCache = \<lparr>Principals = Map.empty, StateVersion = 0, DaemonConfig = None, CA = '''', RetiredCAs = []\<rparr>"

definition CertPrincipals :: "cacheJSON \<Rightarrow> string \<Rightarrow> string list" where
  "CertPrincipals c username = (case Principals c username of None \<Rightarrow> [] | Some ps \<Rightarrow> ps)"

definition GetStateVersion :: "cacheJSON \<Rightarrow> int" where
  "GetStateVersion c = StateVersion c"

definition SetDaemonConfig :: "cacheJSON \<Rightarrow> daemon_config option \<Rightarrow> cacheJSON" where
  "SetDaemonConfig c dc = c\<lparr>DaemonConfig := dc\<rparr>"

definition CAs :: "cacheJSON \<Rightarrow> string \<times> retired_ca_key list" where
  "CAs c = (CA c, RetiredCAs c)"

definition validPrincipals :: "principal_map \<Rightarrow> principal_map" where
  "validPrincipals m = (\<lambda>u. if validatePrincipal u then m u else None)"

definition Replace ::
    "cacheJSON \<Rightarrow> principal_map \<Rightarrow> daemon_config option \<Rightarrow> string \<Rightarrow> retired_ca_key list \<Rightarrow> int \<Rightarrow> cacheJSON"
where
  "Replace c principals dc ca retiredCAs version =
     \<lparr>Principals = validPrincipals principals, StateVersion = version, DaemonConfig = dc,
      CA = ca, RetiredCAs = retiredCAs\<rparr>"

definition Clear :: "cacheJSON \<Rightarrow> cacheJSON" where
  "Clear c = NewCache"

text \<open>
  \<^verbatim>\<open>MarshalJSON\<close> and \<^verbatim>\<open>UnmarshalJSON\<close>. The text form of the record rests on the struct tags of
  the generated protocol messages, so the codec is a parameter; what the daemon adds is that a
  read goes through the same check as \<^const>\<open>Replace\<close>.
\<close>

definition MarshalJSON :: "(cacheJSON \<Rightarrow> string) \<Rightarrow> cacheJSON \<Rightarrow> string" where
  "MarshalJSON json_marshal c = json_marshal c"

definition UnmarshalJSON :: "(string \<Rightarrow> cacheJSON option) \<Rightarrow> cacheJSON \<Rightarrow> string \<Rightarrow> cacheJSON option" where
  "UnmarshalJSON json_unmarshal c data =
     (case json_unmarshal data of None \<Rightarrow> None
      | Some nxt \<Rightarrow> Some (nxt\<lparr>Principals := validPrincipals (Principals nxt)\<rparr>))"

text \<open>The persisted enrollment of \<^verbatim>\<open>config.go\<close>.\<close>

record config =
  TargetID :: string
  DaemonID :: string
  APIURL :: string
  APICA :: string
  SessionToken :: string

definition DefaultAPIURL :: string where
  "DefaultAPIURL = ''https://app.nokku.sh''"

section \<open>Lemmas on user names\<close>

lemma dropWhile_all: "dropWhile P xs = [] \<longleftrightarrow> list_all P xs"
  by (induction xs) auto

text \<open>The bytes a valid name can hold; none of them is special to a shell, a path or getent.\<close>

definition user_char :: "char \<Rightarrow> bool" where
  "user_char c = (user_rest c \<or> c = CHR ''$'')"

lemma user_first_rest: "user_first c \<Longrightarrow> user_rest c"
  by (simp add: user_rest_def)

lemma posixUserRE_chars: "posixUserRE s \<Longrightarrow> list_all user_char s"
proof -
  assume "posixUserRE s"
  then obtain c cs r where s: "s = c # cs" and c: "user_first c"
    and r: "r = dropWhile user_rest cs" "r = [] \<or> r = ''$''"
    by (auto simp: posixUserRE_def Let_def split: list.splits)
  have "cs = takeWhile user_rest cs @ r" by (simp add: r(1))
  moreover have "list_all user_char (takeWhile user_rest cs)"
    by (auto simp: list_all_iff user_char_def dest: set_takeWhileD)
  moreover have "list_all user_char r" using r(2) by (auto simp: user_char_def)
  ultimately have "list_all user_char cs" by (metis list_all_append)
  with s c show ?thesis by (simp add: user_char_def user_first_rest)
qed

lemma posixUserRE_first: "posixUserRE s \<Longrightarrow> s \<noteq> [] \<and> user_first (hd s)"
  by (auto simp: posixUserRE_def split: list.splits)

lemmas user_char_defs = user_char_def user_rest_def user_first_def in_range_def

lemma validatePrincipal_safe:
  assumes "validatePrincipal u"
  shows "u \<noteq> [] \<and> length u \<le> 32 \<and> list_all user_char u \<and> user_first (hd u)"
  using assms posixUserRE_first [of u] posixUserRE_chars [of u]
  by (auto simp: validatePrincipal_def)

section \<open>The invariant of the cache\<close>

definition cache_wf :: "cacheJSON \<Rightarrow> bool" where
  "cache_wf c = (\<forall>u \<in> dom (Principals c). validatePrincipal u)"

lemma validPrincipals_Some:
  "validPrincipals m u = Some ps \<longleftrightarrow> validatePrincipal u \<and> m u = Some ps"
  by (simp add: validPrincipals_def)

lemma validPrincipals_id: "(\<And>u. u \<in> dom m \<Longrightarrow> validatePrincipal u) \<Longrightarrow> validPrincipals m = m"
  by (rule ext) (force simp: validPrincipals_def dom_def)

lemma cache_wf_NewCache [inv_intro, simp]: "cache_wf NewCache"
  by (simp add: cache_wf_def NewCache_def)

lemma cache_wf_Clear [inv_intro, simp]: "cache_wf (Clear c)"
  by (simp add: Clear_def)

lemma cache_wf_Replace [inv_intro, simp]: "cache_wf (Replace c m dc ca rs v)"
  by (auto simp: cache_wf_def Replace_def validPrincipals_Some)

lemma cache_wf_SetDaemonConfig [inv_intro]: "cache_wf c \<Longrightarrow> cache_wf (SetDaemonConfig c dc)"
  by (simp add: cache_wf_def SetDaemonConfig_def)

lemma cache_wf_Unmarshal [inv_intro]: "UnmarshalJSON dec c s = Some c' \<Longrightarrow> cache_wf c'"
  by (auto simp: cache_wf_def UnmarshalJSON_def validPrincipals_Some split: option.splits)

lemma CertPrincipals_valid: "cache_wf c \<Longrightarrow> CertPrincipals c u \<noteq> [] \<Longrightarrow> validatePrincipal u"
  by (auto simp: cache_wf_def CertPrincipals_def dom_def split: option.splits)

lemma CertPrincipals_Replace:
  "CertPrincipals (Replace c m dc ca rs v) u =
     (if validatePrincipal u then case m u of None \<Rightarrow> [] | Some ps \<Rightarrow> ps else [])"
  by (simp add: CertPrincipals_def Replace_def validPrincipals_def)

section \<open>The interface the SSH server relies on\<close>

text \<open>
  The server asks for the principals of an account through one function. What it relies on is
  that an account with a non-empty answer has a safe name, since that name is passed on to the
  \<^verbatim>\<open>getent\<close> and \<^verbatim>\<open>id\<close> programs.
\<close>

locale principal_source =
  fixes source_ok :: "'c \<Rightarrow> bool"
    and principals_of :: "'c \<Rightarrow> string \<Rightarrow> string list"
  assumes named: "source_ok c \<Longrightarrow> principals_of c u \<noteq> [] \<Longrightarrow> validatePrincipal u"
begin

lemma granted_name_safe:
  "source_ok c \<Longrightarrow> p \<in> set (principals_of c u) \<Longrightarrow>
     u \<noteq> [] \<and> length u \<le> 32 \<and> list_all user_char u \<and> user_first (hd u)"
  by (rule validatePrincipal_safe) (auto intro: named)

lemma granted_no_option:
  assumes "source_ok c" "p \<in> set (principals_of c u)"
  shows "hd u \<noteq> CHR ''-'' \<and> CHR ''/'' \<notin> set u \<and> CHR '':'' \<notin> set u"
proof -
  from granted_name_safe [OF assms] have u: "list_all user_char u" "user_first (hd u)" by auto
  have "\<not> user_first CHR ''-''" "\<not> user_char CHR ''/''" "\<not> user_char CHR '':''"
    by (simp_all add: user_char_defs)
  with u show ?thesis by (auto simp: list_all_iff)
qed

end

interpretation cache_source: principal_source cache_wf CertPrincipals
  by unfold_locales (rule CertPrincipals_valid)

text \<open>
  Persisting the cache and reading it back gives the same access list, for every cache the
  daemon can hold and every codec that reads back what it wrote for it.
\<close>

lemma cache_roundtrip:
  assumes "cache_wf c" and "json_unmarshal (json_marshal c) = Some c"
  shows "UnmarshalJSON json_unmarshal c0 (MarshalJSON json_marshal c) = Some c"
proof -
  from assms(1) have "validPrincipals (Principals c) = Principals c"
    by (intro validPrincipals_id) (auto simp: cache_wf_def)
  with assms(2) show ?thesis by (simp add: UnmarshalJSON_def MarshalJSON_def)
qed

end
