(* ===== verification/Auth.thy ===== *)
theory Auth
  imports Sshd_Types State_Cache
begin

text \<open>
  Certificate authentication, \<^verbatim>\<open>internal/sshd/auth.go\<close>: the trusted CA keys, the check of a
  client's key and the check of the local account. The functions of the ssh package are
  parameters: \<open>parse_key\<close> reads an authorized key to its wire form
  (\<^verbatim>\<open>ssh.ParseAuthorizedKey\<close>) and \<open>check_cert\<close> is \<^verbatim>\<open>CertChecker.CheckCert\<close>, which returns the
  text of an error or nothing.
\<close>

type_synonym key_parser = "string \<Rightarrow> bytes option"
type_synonym cert_checker = "string list \<Rightarrow> string \<Rightarrow> certificate \<Rightarrow> string option"

section \<open>Trusted authorities\<close>

definition trustedCAWire :: "gotime \<Rightarrow> server \<Rightarrow> bytes \<Rightarrow> bool" where
  "trustedCAWire now s wire =
     (if wire \<in> trustedCAs s then True
      else case retiredCAs s wire of None \<Rightarrow> False | Some until \<Rightarrow> time_before now until)"

fun retire_keys :: "key_parser \<Rightarrow> (bytes \<rightharpoonup> gotime) \<Rightarrow> retired_ca_key list \<Rightarrow> (bytes \<rightharpoonup> gotime)" where
  "retire_keys parse_key m [] = m"
| "retire_keys parse_key m (k # ks) =
     (case parse_key (PublicKey k) of
        None \<Rightarrow> retire_keys parse_key m ks
      | Some wire \<Rightarrow> retire_keys parse_key (m(wire \<mapsto> TrustedUntil k)) ks)"

definition SetTrust :: "key_parser \<Rightarrow> server \<Rightarrow> string \<Rightarrow> retired_ca_key list \<Rightarrow> server" where
  "SetTrust parse_key s active retiredKeys =
     (if active = ''''
      then s\<lparr>trustedCAs := {}, retiredCAs := retire_keys parse_key Map.empty retiredKeys\<rparr>
      else case parse_key active of None \<Rightarrow> s
      | Some wire \<Rightarrow>
          s\<lparr>trustedCAs := {wire}, retiredCAs := retire_keys parse_key Map.empty retiredKeys\<rparr>)"

section \<open>The checks of a login\<close>

definition deny :: "server \<Rightarrow> conn_meta \<Rightarrow> sshd_error \<Rightarrow> server \<times> (sshd_error + 'a)" where
  "deny s conn err = (emit s ((connEvent conn eventAuthFailure)\<lparr>evError := Some err\<rparr>), Inl err)"

definition matched_principal :: "string list \<Rightarrow> certificate \<Rightarrow> string" where
  "matched_principal allowed cert =
     (case find (\<lambda>p. p \<in> set (ValidPrincipals cert)) allowed of None \<Rightarrow> '''' | Some p \<Rightarrow> p)"

definition login_perms :: "certificate \<Rightarrow> bytes \<Rightarrow> string \<Rightarrow> permissions" where
  "login_perms cert ca matched =
     (let ext = (certExtensions cert)
            (''nokku-principal'' \<mapsto> matched, ''nokku-ca'' \<mapsto> ca, ''nokku-cert-key-id'' \<mapsto> KeyId cert);
          fc = map_get (certCriticalOptions cert) ''force-command''
      in \<lparr>CriticalOptions = certCriticalOptions cert,
          Extensions = (if fc \<noteq> '''' then ext(''force-command'' \<mapsto> fc) else ext),
          ExtraAccount = None\<rparr>)"

definition publicKeyCallback ::
    "cert_checker \<Rightarrow> gotime \<Rightarrow> (string \<Rightarrow> string list) \<Rightarrow> server \<Rightarrow> conn_meta \<Rightarrow> public_key
     \<Rightarrow> server \<times> (sshd_error + permissions)"
where
  "publicKeyCallback check_cert now principals s conn key =
     (case key of PlainKey _ \<Rightarrow> deny s conn ErrNoCertificates
      | CertKey cert \<Rightarrow>
          if certType cert \<noteq> UserCert then deny s conn (ErrCertType (certType cert))
          else case SignatureKey cert of None \<Rightarrow> (s, Inl ErrPanic)
          | Some ca \<Rightarrow>
              if \<not> trustedCAWire now s ca then deny s conn ErrUnrecognizedAuthority
              else let allowed = principals (cm_user conn) in
                if allowed = [] then deny s conn (ErrNoAccessRules (cm_user conn))
                else let matched = matched_principal allowed cert in
                  if matched = '''' then deny s conn (ErrPrincipalNotAuthorized (cm_user conn))
                  else case check_cert [''force-command'', ''source-address''] matched cert of
                    Some e \<Rightarrow> deny s conn (ErrCheckCert e)
                  | None \<Rightarrow> (s, Inr (login_perms cert ca matched)))"

definition verifiedPublicKey ::
    "(string \<Rightarrow> sshd_error + account) \<Rightarrow> string option \<Rightarrow> server \<Rightarrow> conn_meta \<Rightarrow> permissions
     \<Rightarrow> server \<times> (sshd_error + permissions)"
where
  "verifiedPublicKey lookup nologin s conn perms =
     (case lookup (cm_user conn) of Inl e \<Rightarrow> deny s conn e
      | Inr sysUser \<Rightarrow>
          (case loginAllowed sysUser nologin of Some e \<Rightarrow> deny s conn e
           | None \<Rightarrow>
               let ev = (connEvent conn eventAuthSuccess)
                     \<lparr>evPrincipal := map_get (Extensions perms) ''nokku-principal''\<rparr>
               in (emit s ev, Inr (perms\<lparr>ExtraAccount := Some sysUser\<rparr>))))"

text \<open>
  The order in which the ssh package runs the two callbacks: the second one only after the first
  accepted the key and the client proved that it holds it.
\<close>

definition authenticate ::
    "cert_checker \<Rightarrow> gotime \<Rightarrow> (string \<Rightarrow> string list) \<Rightarrow> (string \<Rightarrow> sshd_error + account)
     \<Rightarrow> string option \<Rightarrow> server \<Rightarrow> conn_meta \<Rightarrow> public_key \<Rightarrow> bool
     \<Rightarrow> server \<times> (sshd_error + permissions) option"
where
  "authenticate check_cert now principals lookup nologin s conn key proved =
     (case publicKeyCallback check_cert now principals s conn key of
        (s1, Inl e) \<Rightarrow> (s1, Some (Inl e))
      | (s1, Inr perms) \<Rightarrow>
          if proved
          then (case verifiedPublicKey lookup nologin s1 conn perms of (s2, r) \<Rightarrow> (s2, Some r))
          else (s1, None))"

lemmas auth_defs = publicKeyCallback_def verifiedPublicKey_def authenticate_def deny_def Let_def

section \<open>Trust\<close>

lemma retire_keys_append:
  "retire_keys parse_key m (ks @ ks') = retire_keys parse_key (retire_keys parse_key m ks) ks'"
  by (induction ks arbitrary: m) (auto split: option.splits)

text \<open>A key listed twice keeps the deadline of its last entry.\<close>

lemma retire_keys_last:
  "retire_keys parse_key m ks w =
     (case find (\<lambda>k. parse_key (PublicKey k) = Some w) (rev ks) of
        None \<Rightarrow> m w | Some k \<Rightarrow> Some (TrustedUntil k))"
proof (induction ks rule: rev_induct)
  case (snoc k ks)
  then show ?case
    by (auto simp: retire_keys_append split: option.splits)
qed simp

text \<open>
  After a sync the daemon trusts exactly the authorities the sync sent: the active key, and
  each retired key until the deadline of its last entry. An active key that cannot be read
  changes nothing.
\<close>

theorem trust_after_sync:
  "trustedCAWire now (SetTrust parse_key s active ks) w \<longleftrightarrow>
     (if active \<noteq> '''' \<and> parse_key active = None then trustedCAWire now s w
      else active \<noteq> '''' \<and> parse_key active = Some w \<or>
        (\<exists>k. find (\<lambda>k. parse_key (PublicKey k) = Some w) (rev ks) = Some k \<and>
             time_before now (TrustedUntil k)))"
  by (auto simp: trustedCAWire_def SetTrust_def retire_keys_last split: option.splits)

text \<open>
  The comment on \<^const>\<open>SetTrust\<close> says that an empty active key trusts no authority; a retired key
  that comes with it is trusted all the same.
\<close>

lemma empty_active_trusts_retired:
  assumes "parse_key (PublicKey k) = Some w" "time_before now (TrustedUntil k)"
  shows "trustedCAWire now (SetTrust parse_key s '''' [k]) w"
  using assms by (simp add: trustedCAWire_def SetTrust_def)

section \<open>Sound logins\<close>

lemma matched_principal_in:
  assumes "matched_principal allowed cert = p" "p \<noteq> ''''"
  shows "p \<in> set allowed \<and> p \<in> set (ValidPrincipals cert)"
  using assms by (auto simp: matched_principal_def find_Some_iff split: option.splits)

lemma publicKeyCallback_Inr:
  assumes "publicKeyCallback check_cert now principals s conn key = (s', Inr perms)"
  obtains cert ca m where "key = CertKey cert" "certType cert = UserCert" "SignatureKey cert = Some ca"
    "trustedCAWire now s ca" "m = matched_principal (principals (cm_user conn)) cert" "m \<noteq> ''''"
    "check_cert [''force-command'', ''source-address''] m cert = None"
    "perms = login_perms cert ca m" "s' = s"
proof -
  from assms obtain cert where key: "key = CertKey cert" and ty: "certType cert = UserCert"
    by (cases key) (simp_all add: publicKeyCallback_def deny_def split: if_splits)
  from assms key ty obtain ca where ca: "SignatureKey cert = Some ca" and tr: "trustedCAWire now s ca"
    by (cases "SignatureKey cert") (simp_all add: publicKeyCallback_def deny_def split: if_splits)
  define m where "m = matched_principal (principals (cm_user conn)) cert"
  from assms key ty ca tr m_def have "m \<noteq> ''''"
    "check_cert [''force-command'', ''source-address''] m cert = None"
    "perms = login_perms cert ca m" "s' = s"
    by (simp_all add: publicKeyCallback_def deny_def Let_def split: if_splits option.splits)
  with that key ty ca tr m_def show thesis by blast
qed

lemma publicKeyCallback_Inl:
  assumes "publicKeyCallback check_cert now principals s conn key = (s', Inl e)"
  shows "s' = fst (deny s conn e) \<or> e = ErrPanic"
  using assms
  by (simp add: publicKeyCallback_def deny_def Let_def
        split: public_key.splits if_splits option.splits) auto

lemma verifiedPublicKey_Inr:
  assumes "verifiedPublicKey lookup nologin s conn perms = (s', Inr perms')"
  obtains a where "lookup (cm_user conn) = Inr a" "loginAllowed a nologin = None"
    "perms' = perms\<lparr>ExtraAccount := Some a\<rparr>"
  using assms by (auto simp: auth_defs split: sum.splits option.splits)

lemma authenticate_Inr:
  assumes "authenticate check_cert now principals lookup nologin s conn key proved = (s', Some (Inr perms))"
  obtains p0 s1 where
    "publicKeyCallback check_cert now principals s conn key = (s1, Inr p0)" "proved"
    "verifiedPublicKey lookup nologin s1 conn p0 = (s', Inr perms)"
  using assms by (auto simp: authenticate_def split: prod.splits sum.splits if_splits)

lemma login_perms_ext [simp]:
  "Extensions (login_perms cert ca m) ''nokku-principal'' = Some m"
  "Extensions (login_perms cert ca m) ''nokku-ca'' = Some ca"
  "Extensions (login_perms cert ca m) ''nokku-cert-key-id'' = Some (KeyId cert)"
  by (simp_all add: login_perms_def Let_def)

lemma login_perms_force:
  "map_get (certCriticalOptions cert) ''force-command'' = fc \<Longrightarrow> fc \<noteq> '''' \<Longrightarrow>
     Extensions (login_perms cert ca m) ''force-command'' = Some fc"
  by (simp add: login_perms_def Let_def)

text \<open>What the documentation of \<^verbatim>\<open>CheckCert\<close> promises for a certificate it accepts.\<close>

definition checks_certificates :: "64 word \<Rightarrow> cert_checker \<Rightarrow> bool" where
  "checks_certificates unix_now check_cert \<longleftrightarrow>
     (\<forall>opts p c. check_cert opts p c = None \<longrightarrow>
        dom (certCriticalOptions c) \<subseteq> insert ''source-address'' (set opts) \<and>
        0 \<le> sint (ValidAfter c) \<and> sint (ValidAfter c) \<le> sint unix_now \<and>
        (ValidBefore c = CertTimeInfinity \<or> sint unix_now < sint (ValidBefore c)))"

lemma checks_certificatesD:
  assumes "checks_certificates unix_now check_cert" "check_cert opts p c = None"
  shows "dom (certCriticalOptions c) \<subseteq> insert ''source-address'' (set opts)"
    and "0 \<le> sint (ValidAfter c)" "sint (ValidAfter c) \<le> sint unix_now"
    and "ValidBefore c = CertTimeInfinity \<or> sint unix_now < sint (ValidBefore c)"
  using assms unfolding checks_certificates_def by blast+

text \<open>
  C1. A login over the synced access list succeeds only for a user certificate whose authority is
  trusted at that moment, with a principal that the list holds for exactly the account asked
  for, not before its validity starts nor after it ends, and with no critical option the daemon does not enforce; the account
  looked up is the one asked for, its name is safe to pass to a program, and it is root's unless
  no nologin file exists.
\<close>

theorem login_sound:
  assumes "authenticate check_cert now (CertPrincipals cache) (lookupAccount getent) nologin s conn key proved
             = (s', Some (Inr perms))"
    and "cache_wf cache" and "checks_certificates unix_now check_cert"
  shows "\<exists>cert ca p a. key = CertKey cert \<and> certType cert = UserCert \<and>
    SignatureKey cert = Some ca \<and> trustedCAWire now s ca \<and>
    p \<in> set (CertPrincipals cache (cm_user conn)) \<and> p \<in> set (ValidPrincipals cert) \<and>
    Extensions perms ''nokku-principal'' = Some p \<and> Extensions perms ''nokku-ca'' = Some ca \<and>
    dom (certCriticalOptions cert) \<subseteq> {''force-command'', ''source-address''} \<and>
    0 \<le> sint (ValidAfter cert) \<and> sint (ValidAfter cert) \<le> sint unix_now \<and>
    (ValidBefore cert = CertTimeInfinity \<or> sint unix_now < sint (ValidBefore cert)) \<and>
    validatePrincipal (cm_user conn) \<and> ExtraAccount perms = Some a \<and>
    acName a = cm_user conn \<and> (acUID a = 0 \<or> nologin = None)"
proof -
  from assms(1) obtain p0 s1 where
    pk: "publicKeyCallback check_cert now (CertPrincipals cache) s conn key = (s1, Inr p0)"
    and vp: "verifiedPublicKey (lookupAccount getent) nologin s1 conn p0 = (s', Inr perms)"
    by (rule authenticate_Inr)
  from pk obtain cert ca m where c: "key = CertKey cert" "certType cert = UserCert"
      "SignatureKey cert = Some ca" "trustedCAWire now s ca"
    and m: "m = matched_principal (CertPrincipals cache (cm_user conn)) cert" "m \<noteq> ''''"
    and ok: "check_cert [''force-command'', ''source-address''] m cert = None"
    and p0: "p0 = login_perms cert ca m"
    by (rule publicKeyCallback_Inr)
  from vp obtain a where a: "lookupAccount getent (cm_user conn) = Inr a" "loginAllowed a nologin = None"
    and perms: "perms = p0\<lparr>ExtraAccount := Some a\<rparr>"
    by (rule verifiedPublicKey_Inr)
  have mem: "m \<in> set (CertPrincipals cache (cm_user conn))" "m \<in> set (ValidPrincipals cert)"
    using matched_principal_in m by metis+
  then have "validatePrincipal (cm_user conn)"
    using assms(2) by (auto intro: CertPrincipals_valid)
  moreover have
    "dom (certCriticalOptions cert) \<subseteq> {''force-command'', ''source-address''}"
    "0 \<le> sint (ValidAfter cert)" "sint (ValidAfter cert) \<le> sint unix_now"
    "ValidBefore cert = CertTimeInfinity \<or> sint unix_now < sint (ValidBefore cert)"
    using checks_certificatesD [OF assms(3) ok] by auto
  ultimately show ?thesis
    using c mem p0 perms a lookupAccount_name [OF a(1)] by (auto simp: loginAllowed_iff)
qed

text \<open>A concrete login, on which the theorems of this theory are applied.\<close>

definition ex_cert :: certificate where
  "ex_cert = \<lparr>certKey = ''k'', certType = UserCert, KeyId = ''id'', ValidPrincipals = [''p1'', ''p2''],
     ValidAfter = 0, ValidBefore = CertTimeInfinity, certCriticalOptions = Map.empty,
     certExtensions = [''permit-pty'' \<mapsto> ''''], SignatureKey = Some ''ca''\<rparr>"

definition ex_checker :: cert_checker where
  "ex_checker opts p c =
     (if certCriticalOptions c = Map.empty \<and> ValidAfter c = 0 \<and> ValidBefore c = CertTimeInfinity
      then None else Some ''refused'')"

definition ex_cache :: cacheJSON where
  "ex_cache = Replace NewCache [''bob'' \<mapsto> [''p0'', ''p2'']] None ''ca-key'' [] 7"

definition ex_getent :: "string \<Rightarrow> string option" where
  "ex_getent u = (if u = ''bob'' then Some ''bob:x:1000:1000::/home/bob:'' else None)"

definition ex_account :: account where
  "ex_account = \<lparr>acName = ''bob'', acUID = 1000, acGID = 1000, acHome = ''/home/bob'', acShell = ''/bin/sh''\<rparr>"

definition ex_meta :: conn_meta where
  "ex_meta = \<lparr>cm_user = ''bob'', cm_remote = ''192.0.2.1:5000'', cm_local = ''192.0.2.9:4022'', cm_client = ''SSH-2.0-x''\<rparr>"

definition ex_server :: server where
  "ex_server = \<lparr>srvPolicy = DefaultPolicy, conns = make_sem 100, startups = make_sem 10,
     localStartups = make_sem 10, sourceStartups = Map.empty, maxChannels = 50, maxRecording = 0, live = Map.empty,
     hostKey = ''hk'', cfg = KeySigner ''hk'', trustedCAs = {''ca''}, retiredCAs = Map.empty, auditLog = []\<rparr>"

lemma ex_lookup: "lookupAccount ex_getent ''bob'' = Inr ex_account"
proof -
  have "trim_space ''bob:x:1000:1000::/home/bob:'' = ''bob:x:1000:1000::/home/bob:''"
    by (simp add: trim_space_def go_spaces_def numeral_eq_Suc)
  moreover have "parse_uint 32 ''1000'' = Some 1000"
    by (simp add: parse_uint_def is_digit_def digits_val_def digit_val_def)
  ultimately show ?thesis
    by (simp add: lookupAccount_def ex_getent_def ex_account_def cmp_or_def numeral_eq_Suc)
qed

lemma ex_cache_wf: "cache_wf ex_cache"
  by (simp add: ex_cache_def)

lemma ex_principals: "CertPrincipals ex_cache ''bob'' = [''p0'', ''p2'']"
proof -
  have "validatePrincipal ''bob''" by code_simp
  then show ?thesis by (simp add: ex_cache_def CertPrincipals_Replace)
qed

lemma ex_checker_ok: "checks_certificates 0 ex_checker"
  by (auto simp: checks_certificates_def ex_checker_def split: if_splits)

lemma ex_login:
  "authenticate ex_checker now (CertPrincipals ex_cache) (lookupAccount ex_getent) None ex_server
     ex_meta (CertKey ex_cert) True
   = (emit ex_server ((connEvent ex_meta eventAuthSuccess)\<lparr>evPrincipal := ''p2''\<rparr>),
      Some (Inr ((login_perms ex_cert ''ca'' ''p2'')\<lparr>ExtraAccount := Some ex_account\<rparr>)))"
proof -
  have "matched_principal [''p0'', ''p2''] ex_cert = ''p2''"
    by (simp add: matched_principal_def ex_cert_def)
  moreover have "ex_checker opts p ex_cert = None" for opts p
    by (simp add: ex_checker_def ex_cert_def)
  moreover have "certType ex_cert = UserCert" "SignatureKey ex_cert = Some ''ca''"
    by (simp_all add: ex_cert_def)
  moreover have "trustedCAWire now ex_server ''ca''"
    by (simp add: trustedCAWire_def ex_server_def)
  moreover have "cm_user ex_meta = ''bob''" by (simp add: ex_meta_def)
  moreover have "loginAllowed ex_account None = None" by (simp add: loginAllowed_iff)
  ultimately show ?thesis
    by (simp add: auth_defs ex_lookup ex_principals map_get_def)
qed

theorem login_sound_witness:
  "\<exists>s' perms. authenticate ex_checker (Time 0 0) (CertPrincipals ex_cache) (lookupAccount ex_getent) None ex_server
     ex_meta (CertKey ex_cert) True = (s', Some (Inr perms)) \<and>
   cache_wf ex_cache \<and> checks_certificates 0 ex_checker \<and> ExtraAccount perms = Some ex_account \<and>
   validatePrincipal (cm_user ex_meta) \<and> acName ex_account = cm_user ex_meta \<and>
   sint (ValidAfter ex_cert) \<le> sint (0 :: 64 word)"
  using login_sound [OF ex_login [of "Time 0 0"] ex_cache_wf ex_checker_ok] ex_login [of "Time 0 0"] ex_cache_wf ex_checker_ok
  by auto

text \<open>
  Every decision on a login leaves exactly one line in the audit log: a success with the
  principal that matched, or a failure with the reason the login was refused.
\<close>

theorem login_audited:
  assumes "authenticate check_cert now principals (lookupAccount getent) nologin s conn key proved = (s', Some r)"
    and "r \<noteq> Inl ErrPanic"
  shows "\<exists>ev. auditLog s' = auditLog s @ [ev] \<and> evUser ev = cm_user conn \<and>
    (case r of
       Inl e \<Rightarrow> evType ev = eventAuthFailure \<and> evError ev = Some e
     | Inr perms \<Rightarrow> evType ev = eventAuthSuccess \<and> evError ev = None \<and>
         Extensions perms ''nokku-principal'' = Some (evPrincipal ev))"
proof (cases "publicKeyCallback check_cert now principals s conn key")
  case (Pair s1 r1)
  show ?thesis
  proof (cases r1)
    case (Inl e)
    with Pair assms have r: "s' = s1" "r = Inl e" by (simp_all add: authenticate_def)
    from publicKeyCallback_Inl [of check_cert now principals s conn key s1 e] Pair Inl assms(2) r(2)
    have "s1 = fst (deny s conn e)" by auto
    with r show ?thesis by (simp add: deny_def)
  next
    case (Inr p0)
    from Pair Inr assms have proved and vp: "verifiedPublicKey (lookupAccount getent) nologin s1 conn p0 = (s', r)"
      by (auto simp: authenticate_def split: if_splits prod.splits)
    from Pair Inr obtain cert ca m where "p0 = login_perms cert ca m" "s1 = s"
      using publicKeyCallback_Inr by metis
    with vp show ?thesis
      by (auto simp: verifiedPublicKey_def deny_def Let_def map_get_def split: sum.splits option.splits)
  qed
qed

theorem login_audited_witness:
  "\<exists>s' r ev. authenticate ex_checker (Time 0 0) (CertPrincipals ex_cache) (lookupAccount ex_getent) None
       ex_server ex_meta (CertKey ex_cert) True = (s', Some r) \<and> r \<noteq> Inl ErrPanic \<and>
     auditLog s' = [ev] \<and> evUser ev = ''bob'' \<and> (\<forall>e. r \<noteq> Inl e)"
  using login_audited [OF ex_login [of "Time 0 0"]] ex_login [of "Time 0 0"]
  by (auto simp: ex_server_def ex_meta_def)

end
