(* ===== verification/Server.thy ===== *)
theory Server
  imports Auth "HOL-Library.Multiset"
begin

text \<open>
  The server of \<^verbatim>\<open>internal/sshd/server.go\<close>, with the host key of \<^verbatim>\<open>keys.go\<close>: its construction, the policy, the
  admission of connections and the slots a connection holds before it has authenticated.
\<close>

definition maxConns :: nat where "maxConns = 100"
definition maxStartups :: nat where "maxStartups = 10"
definition maxSourceStartups :: nat where "maxSourceStartups = 3"
definition defaultMaxChannels :: nat where "defaultMaxChannels = 50"

section \<open>Policy and construction\<close>

definition set_if :: "bool \<Rightarrow> bool option \<Rightarrow> bool" where
  "set_if dst v = (case v of None \<Rightarrow> dst | Some b \<Rightarrow> b)"

definition PolicyFrom :: "daemon_config option \<Rightarrow> policy" where
  "PolicyFrom c =
     (case c of None \<Rightarrow> DefaultPolicy
      | Some dc \<Rightarrow>
          \<lparr>Record = set_if (Record DefaultPolicy) (RecordSessions dc),
           AllowForwarding = set_if (AllowForwarding DefaultPolicy) (CfgAllowForwarding dc),
           AllowAgentForwarding = set_if (AllowAgentForwarding DefaultPolicy) (CfgAllowAgentForwarding dc),
           GatewayPorts = set_if (GatewayPorts DefaultPolicy) (CfgGatewayPorts dc)\<rparr>)"

definition SetPolicy :: "server \<Rightarrow> policy \<Rightarrow> server" where
  "SetPolicy s p = s\<lparr>srvPolicy := p\<rparr>"

text \<open>
  \<^verbatim>\<open>withHostCert\<close>: the stored host certificate when there is one and \<^verbatim>\<open>ssh.NewCertSigner\<close>, a
  parameter, takes it for the host key.
\<close>

definition withHostCert ::
    "(certificate \<Rightarrow> bytes \<Rightarrow> bool) \<Rightarrow> certificate option \<Rightarrow> bytes \<Rightarrow> host_signer"
where
  "withHostCert cert_signer_ok stored key =
     (case stored of None \<Rightarrow> KeySigner key
      | Some cert \<Rightarrow> if cert_signer_ok cert key then CertSigner cert key else KeySigner key)"

definition Reload :: "(certificate \<Rightarrow> bytes \<Rightarrow> bool) \<Rightarrow> certificate option \<Rightarrow> server \<Rightarrow> server" where
  "Reload cert_signer_ok stored s = s\<lparr>cfg := withHostCert cert_signer_ok stored (hostKey s)\<rparr>"

datatype new_error = ErrPrincipalsRequired | ErrHostKey

definition NewServer ::
    "(certificate \<Rightarrow> bytes \<Rightarrow> bool) \<Rightarrow> certificate option \<Rightarrow> bytes option \<Rightarrow> bool \<Rightarrow> policy
     \<Rightarrow> new_error + server"
where
  "NewServer cert_signer_ok stored host_key has_principals p =
     (if \<not> has_principals then Inl ErrPrincipalsRequired
      else case host_key of None \<Rightarrow> Inl ErrHostKey
      | Some key \<Rightarrow>
          Inr (Reload cert_signer_ok stored
            \<lparr>srvPolicy = p, conns = make_sem maxConns, startups = make_sem maxStartups,
             localStartups = make_sem maxStartups, sourceStartups = Map.empty,
             maxChannels = defaultMaxChannels, maxRecording = 0, live = Map.empty, hostKey = key, cfg = KeySigner key,
             trustedCAs = {}, retiredCAs = Map.empty, auditLog = []\<rparr>))"

definition banner :: "server \<Rightarrow> string" where
  "banner s = (if \<not> Record (srvPolicy s) then ''''
               else ''This session is recorded and audited.'' @ [CHR 0x0D, CHR 0x0A])"

text \<open>A new server trusts no authority, so it refuses every login until the first trust is set.\<close>

lemma new_server_refuses:
  assumes "NewServer ok stored hk has p = Inr s"
  shows "snd (publicKeyCallback check_cert now principals s conn key) \<noteq> Inr perms"
proof
  assume "snd (publicKeyCallback check_cert now principals s conn key) = Inr perms"
  then obtain s' where "publicKeyCallback check_cert now principals s conn key = (s', Inr perms)"
    by (metis prod.collapse)
  then obtain ca where "trustedCAWire now s ca" by (rule publicKeyCallback_Inr)
  with assms show False
    by (auto simp: NewServer_def Reload_def trustedCAWire_def split: if_splits option.splits)
qed

section \<open>The accept loop\<close>

text \<open>
  One round of \<^verbatim>\<open>Serve\<close> on what \<^verbatim>\<open>Accept\<close> returned, with delays in nanoseconds, and
  \<^verbatim>\<open>ServeConn\<close> for a relayed connection. A connection over the cap is closed at once.
\<close>

datatype accept_result = AcceptClosed | AcceptFailed | Accepted string

datatype serve_action = StopServing | SleepFor nat | DropConn string | HandleConn string bool

definition acceptBackoff :: nat where "acceptBackoff = 10000000"
definition oneSecond :: nat where "oneSecond = 1000000000"

definition serve_round :: "server \<Rightarrow> nat \<Rightarrow> accept_result \<Rightarrow> server \<times> nat \<times> serve_action" where
  "serve_round s delay r =
     (case r of AcceptClosed \<Rightarrow> (s, delay, StopServing)
      | AcceptFailed \<Rightarrow>
          let d = min (2 * delay + acceptBackoff) oneSecond in (s, d, SleepFor d)
      | Accepted addr \<Rightarrow>
          (case sem_try (conns s) of
             Some q \<Rightarrow> (s\<lparr>conns := q\<rparr>, 0, HandleConn addr False)
           | None \<Rightarrow> (s, 0, DropConn addr)))"

fun Serve :: "server \<Rightarrow> nat \<Rightarrow> accept_result list \<Rightarrow> server \<times> serve_action list" where
  "Serve s delay [] = (s, [])"
| "Serve s delay (r # rs) =
     (case serve_round s delay r of
        (s', d, StopServing) \<Rightarrow> (s', [StopServing])
      | (s', d, act) \<Rightarrow> (case Serve s' d rs of (s'', acts) \<Rightarrow> (s'', act # acts)))"

definition ServeConn :: "server \<Rightarrow> string \<Rightarrow> server \<times> serve_action" where
  "ServeConn s addr =
     (case sem_try (conns s) of
        Some q \<Rightarrow> (s\<lparr>conns := q\<rparr>, HandleConn addr True)
      | None \<Rightarrow> (s, DropConn addr))"

definition conn_done :: "server \<Rightarrow> server option" where
  "conn_done s = map_option (\<lambda>q. s\<lparr>conns := q\<rparr>) (sem_recv (conns s))"

text \<open>The accept loop sleeps at most a second and never handles more connections than it has slots.\<close>

lemma Serve_bounds:
  assumes "Serve s delay rs = (s', acts)"
  shows "(\<forall>d. SleepFor d \<in> set acts \<longrightarrow> acceptBackoff \<le> d \<and> d \<le> oneSecond) \<and>
    sem_used (conns s') = sem_used (conns s) + length (filter (\<lambda>a. \<exists>x b. a = HandleConn x b) acts) \<and>
    sem_cap (conns s') = sem_cap (conns s)"
  using assms
proof (induction s delay rs arbitrary: s' acts rule: Serve.induct)
  case (2 s delay r rs)
  obtain s1 d act where r: "serve_round s delay r = (s1, d, act)" by (cases "serve_round s delay r") auto
  have one: "sem_cap (conns s1) = sem_cap (conns s) \<and>
      sem_used (conns s1) = sem_used (conns s) + (if \<exists>x b. act = HandleConn x b then 1 else 0) \<and>
      (\<forall>e. act = SleepFor e \<longrightarrow> acceptBackoff \<le> e \<and> e \<le> oneSecond)"
    using r go_sem.take_some [of "conns s"]
    by (auto simp: serve_round_def Let_def acceptBackoff_def oneSecond_def
          split: accept_result.splits option.splits)
  show ?case
  proof (cases act)
    case StopServing
    with 2 r one show ?thesis by auto
  next
    case (SleepFor e)
    obtain s2 as where "Serve s1 d rs = (s2, as)" by (cases "Serve s1 d rs")
    with 2 r one SleepFor show ?thesis by auto
  next
    case (DropConn x)
    obtain s2 as where "Serve s1 d rs = (s2, as)" by (cases "Serve s1 d rs")
    with 2 r one DropConn show ?thesis by auto
  next
    case (HandleConn x b)
    obtain s2 as where "Serve s1 d rs = (s2, as)" by (cases "Serve s1 d rs")
    with 2 r one HandleConn show ?thesis by auto
  qed
qed simp

end
