(* ===== verification/Forward.thy ===== *)
theory Forward
  imports Server
begin

text \<open>
  Port forwarding and the channels of one connection, \<^verbatim>\<open>internal/sshd/forward.go\<close>, with the
  dispatch of new channels in \<^verbatim>\<open>handleConn\<close> of \<^verbatim>\<open>server.go\<close>. What the ssh package decoded from
  a payload is an argument (\<^const>\<open>None\<close> when \<^verbatim>\<open>ssh.Unmarshal\<close> failed), and so is what the
  operating system answered to a dial or a listen.
\<close>

record tcpipChannelData =
  DestAddr :: string
  DestPort :: "32 word"
  OriginAddr :: string
  OriginPort :: "32 word"

record tcpipForwardData =
  BindAddr :: string
  BindPort :: "32 word"

datatype listener = Listener (ln_id: nat) (ln_addr: string)

record connState =
  st_meta :: conn_meta
  st_perms :: permissions
  st_user :: "account option"
  st_principal :: string
  channels :: sem
  forwards :: "(string \<rightharpoonup> listener) option"

definition newConnState :: "conn_meta \<Rightarrow> permissions \<Rightarrow> nat \<Rightarrow> connState" where
  "newConnState conn perms limit =
     \<lparr>st_meta = conn, st_perms = perms, st_user = ExtraAccount perms,
      st_principal = map_get (Extensions perms) ''nokku-principal'',
      channels = make_sem limit, forwards = Some Map.empty\<rparr>"

definition acquireChannel :: "connState \<Rightarrow> connState option" where
  "acquireChannel st = map_option (\<lambda>q. st\<lparr>channels := q\<rparr>) (sem_try (channels st))"

definition releaseChannel :: "connState \<Rightarrow> connState option" where
  "releaseChannel st = map_option (\<lambda>q. st\<lparr>channels := q\<rparr>) (sem_recv (channels st))"

text \<open>\<^verbatim>\<open>close\<close> ends every listener of the connection; the second part is the listeners it closes.\<close>

definition close_forwards :: "connState \<Rightarrow> connState \<times> listener set" where
  "close_forwards st =
     (st\<lparr>forwards := None\<rparr>, case forwards st of None \<Rightarrow> {} | Some m \<Rightarrow> ran m)"

section \<open>Opening channels\<close>

datatype reject_reason = UnknownChannelType | ResourceShortage | Prohibited | ConnectionFailed string

datatype channel_decision = Reject reject_reason | ServeSession | ServeDirect

definition dispatch_channel :: "connState \<Rightarrow> string \<Rightarrow> connState \<times> channel_decision" where
  "dispatch_channel st ctype =
     (if ctype = ''session'' \<or> ctype = ''direct-tcpip'' then
        (case acquireChannel st of
           None \<Rightarrow> (st, Reject ResourceShortage)
         | Some st' \<Rightarrow> (st', if ctype = ''session'' then ServeSession else ServeDirect))
      else (st, Reject UnknownChannelType))"

definition forwardingAllowed :: "server \<Rightarrow> connState \<Rightarrow> bool" where
  "forwardingAllowed s st =
     (AllowForwarding (srvPolicy s) \<and> certExt (Some (st_perms st)) ''permit-port-forwarding'')"

datatype direct_result = DirectRejected reject_reason | DirectAborted | DirectProxy string

definition serveDirectTCPIP ::
    "server \<Rightarrow> connState \<Rightarrow> tcpipChannelData option \<Rightarrow> (string \<Rightarrow> string option) \<Rightarrow> bool
     \<Rightarrow> server \<times> direct_result"
where
  "serveDirectTCPIP s st payload dial_error accept_ok =
     (case payload of None \<Rightarrow> (s, DirectRejected (ConnectionFailed ''bad direct-tcpip request''))
      | Some d \<Rightarrow>
          if \<not> forwardingAllowed s st then (s, DirectRejected Prohibited)
          else let dest = join_host_port (DestAddr d) (format_uint (unat (DestPort d))) in
            (case dial_error dest of Some e \<Rightarrow> (s, DirectRejected (ConnectionFailed e))
             | None \<Rightarrow>
                 let s' = emit s ((connEvent (st_meta st) eventForward)\<lparr>evTarget := dest\<rparr>) in
                 if accept_ok then (s', DirectProxy dest) else (s', DirectAborted)))"

section \<open>Remote forwards\<close>

definition forwardAddr :: "tcpipForwardData \<Rightarrow> bool \<Rightarrow> string" where
  "forwardAddr f gateway =
     (let host = (if gateway then (if BindAddr f = '''' then ''0.0.0.0'' else BindAddr f)
                  else ''127.0.0.1'')
      in join_host_port host (format_uint (unat (BindPort f))))"

definition addrPort :: "string \<Rightarrow> netip_addr \<times> nat" where
  "addrPort t = (case parse_addr_port t of None \<Rightarrow> (AddrZero, 0) | Some ap \<Rightarrow> ap)"

text \<open>
  The answer to a \<^verbatim>\<open>tcpip-forward\<close> request. \<open>FwdOpened\<close> names the address that was asked of
  the operating system, the listener it gave and the port that is sent back to the client;
  \<open>FwdPanic\<close> is the nil dereference of a connection without an account.
\<close>

datatype forward_reply = FwdRefused | FwdPanic | FwdOpened string listener "32 word"

definition tcpipForward ::
    "server \<Rightarrow> connState \<Rightarrow> tcpipForwardData option \<Rightarrow> (string \<Rightarrow> listener option)
     \<Rightarrow> server \<times> connState \<times> forward_reply"
where
  "tcpipForward s st payload listen =
     (if \<not> forwardingAllowed s st then (s, st, FwdRefused)
      else case payload of None \<Rightarrow> (s, st, FwdRefused)
      | Some f \<Rightarrow>
          if BindPort f > 65535 then (s, st, FwdRefused)
          else if BindPort f \<noteq> 0 \<and> BindPort f < 1024 \<and> st_user st = None then (s, st, FwdPanic)
          else if BindPort f \<noteq> 0 \<and> BindPort f < 1024 \<and> acUID (the (st_user st)) \<noteq> 0
          then (s, st, FwdRefused)
          else
            let gateway = GatewayPorts (srvPolicy s); addr = forwardAddr f gateway in
            (case forwards st of None \<Rightarrow> (s, st, FwdRefused)
             | Some m \<Rightarrow>
                 if m addr \<noteq> None then (s, st, FwdRefused)
                 else (case acquireChannel st of None \<Rightarrow> (s, st, FwdRefused)
                   | Some st1 \<Rightarrow>
                       (case listen addr of
                          None \<Rightarrow> (s, (case releaseChannel st1 of None \<Rightarrow> st1 | Some st2 \<Rightarrow> st2), FwdRefused)
                        | Some ln \<Rightarrow>
                            let f' = f\<lparr>BindPort := of_nat (snd (addrPort (ln_addr ln)))\<rparr>;
                                st2 = st1\<lparr>forwards := Some (m(forwardAddr f' gateway \<mapsto> ln))\<rparr>;
                                ev = (connEvent (st_meta st) eventRemoteForward)\<lparr>evTarget := ln_addr ln\<rparr>
                            in (emit s ev, st2, FwdOpened addr ln (BindPort f'))))))"

definition cancelTCPIPForward ::
    "server \<Rightarrow> connState \<Rightarrow> tcpipForwardData option \<Rightarrow> connState \<times> listener option"
where
  "cancelTCPIPForward s st payload =
     (case payload of None \<Rightarrow> (st, None)
      | Some f \<Rightarrow>
          (case forwards st of None \<Rightarrow> (st, None)
           | Some m \<Rightarrow>
               let addr = forwardAddr f (GatewayPorts (srvPolicy s)) in
               (case m addr of None \<Rightarrow> (st, None)
                | Some ln \<Rightarrow> (st\<lparr>forwards := Some (m(addr := None))\<rparr>, Some ln))))"

datatype global_request =
    ReqForward "tcpipForwardData option"
  | ReqCancel "tcpipForwardData option"
  | ReqKeepAlive
  | ReqOther

definition global_request_step ::
    "server \<Rightarrow> connState \<Rightarrow> (string \<Rightarrow> listener option) \<Rightarrow> global_request
     \<Rightarrow> server \<times> connState \<times> bool \<times> forward_reply"
where
  "global_request_step s st listen r =
     (case r of
        ReqForward p \<Rightarrow>
          (case tcpipForward s st p listen of
             (s', st', a) \<Rightarrow> (s', st', (case a of FwdOpened _ _ _ \<Rightarrow> True | _ \<Rightarrow> False), a))
      | ReqCancel p \<Rightarrow>
          (case cancelTCPIPForward s st p of (st', l) \<Rightarrow> (s, st', l \<noteq> None, FwdRefused))
      | ReqKeepAlive \<Rightarrow> (s, st, True, FwdRefused)
      | ReqOther \<Rightarrow> (s, st, False, FwdRefused))"

text \<open>
  One round of \<^verbatim>\<open>acceptForwarded\<close>: \<open>remote\<close> is the address of the accepted connection,
  \<^const>\<open>None\<close> when \<^verbatim>\<open>Accept\<close> failed, which ends the loop and runs its deferred release. The
  channel that is opened towards the client names the address it asked for and where the
  connection comes from.
\<close>

datatype accept_forwarded = LoopEnds | AcceptedDropped | OpenForwarded tcpipChannelData

definition acceptForwarded ::
    "connState \<Rightarrow> listener \<Rightarrow> string \<Rightarrow> string option \<Rightarrow> connState option \<times> accept_forwarded"
where
  "acceptForwarded st ln bindAddr remote =
     (case remote of None \<Rightarrow> (releaseChannel st, LoopEnds)
      | Some r \<Rightarrow>
          (case acquireChannel st of None \<Rightarrow> (Some st, AcceptedDropped)
           | Some st' \<Rightarrow>
               let origin = addrPort r in
               (Some st', OpenForwarded
                  \<lparr>DestAddr = bindAddr, DestPort = of_nat (snd (addrPort (ln_addr ln))),
                   OriginAddr = addr_string (fst origin), OriginPort = of_nat (snd origin)\<rparr>)))"

section \<open>Lemmas on single operations\<close>

interpretation channel_pool: slot_pool acquireChannel releaseChannel
  "\<lambda>st. sem_used (channels st)" "\<lambda>st. sem_cap (channels st)"
  by unfold_locales
    (auto simp: acquireChannel_def releaseChannel_def go_sem.take_none go_sem.give_none
      dest: go_sem.take_some go_sem.give_some)

lemma acquireChannel_frame:
  "acquireChannel st = Some st' \<Longrightarrow> \<exists>q. st' = st\<lparr>channels := q\<rparr>"
  by (auto simp: acquireChannel_def)

lemma releaseChannel_frame:
  "releaseChannel st = Some st' \<Longrightarrow> \<exists>q. st' = st\<lparr>channels := q\<rparr>"
  by (auto simp: releaseChannel_def)

lemma release_after_acquire:
  "acquireChannel st = Some st1 \<Longrightarrow> releaseChannel st1 = Some st"
  by (auto simp: acquireChannel_def releaseChannel_def sem_try_def sem_recv_def split: if_splits)

lemma acceptForwarded_open:
  "acceptForwarded st ln bind (Some r) = (Some st', OpenForwarded d) \<Longrightarrow> acquireChannel st = Some st'"
  by (auto simp: acceptForwarded_def Let_def split: option.splits)

lemma acceptForwarded_end:
  "acceptForwarded st ln bind None = (Some st', LoopEnds) \<Longrightarrow> releaseChannel st = Some st'"
  by (simp add: acceptForwarded_def)

lemma tcpipForward_opened:
  assumes "tcpipForward s st payload listen = (s', st', FwdOpened addr ln port)"
  obtains f m st1 where "payload = Some f" "forwardingAllowed s st" "\<not> BindPort f > 65535"
    "BindPort f = 0 \<or> \<not> BindPort f < 1024 \<or> (\<exists>a. st_user st = Some a \<and> acUID a = 0)"
    "addr = forwardAddr f (GatewayPorts (srvPolicy s))" "listen addr = Some ln"
    "forwards st = Some m" "m addr = None" "acquireChannel st = Some st1"
    "port = of_nat (snd (addrPort (ln_addr ln)))"
    "st' = st1\<lparr>forwards := Some (m(forwardAddr (f\<lparr>BindPort := port\<rparr>) (GatewayPorts (srvPolicy s)) \<mapsto> ln))\<rparr>"
    "s' = emit s ((connEvent (st_meta st) eventRemoteForward)\<lparr>evTarget := ln_addr ln\<rparr>)"
proof -
  from assms obtain f where f: "payload = Some f" and g: "forwardingAllowed s st"
      "\<not> BindPort f > 65535"
    by (cases payload) (simp_all add: tcpipForward_def split: if_splits)
  from assms f g have g2: "BindPort f = 0 \<or> \<not> BindPort f < 1024 \<or> (\<exists>a. st_user st = Some a \<and> acUID a = 0)"
    by (cases "st_user st") (auto simp: tcpipForward_def split: if_splits)
  let ?addr = "forwardAddr f (GatewayPorts (srvPolicy s))"
  from assms f g g2 obtain m where m: "forwards st = Some m" "m ?addr = None"
    by (cases "forwards st") (auto simp: tcpipForward_def Let_def split: if_splits)
  from assms f g g2 m obtain st1 where st1: "acquireChannel st = Some st1"
    by (cases "acquireChannel st") (auto simp: tcpipForward_def Let_def split: if_splits)
  from assms f g g2 m st1 show thesis
    by (intro that [of f m st1])
      (auto simp: tcpipForward_def Let_def split: if_splits option.splits)
qed

lemma tcpipForward_refused:
  assumes "tcpipForward s st payload listen = (s', st', r)" "\<And>addr ln port. r \<noteq> FwdOpened addr ln port"
  shows "s' = s \<and> st' = st"
  using assms
  by (auto simp: tcpipForward_def Let_def release_after_acquire split: if_splits option.splits)

lemma cancel_some:
  assumes "cancelTCPIPForward s st payload = (st', Some ln)"
  obtains m addr where "forwards st = Some m" "m addr = Some ln" "st' = st\<lparr>forwards := Some (m(addr := None))\<rparr>"
  using assms by (auto simp: cancelTCPIPForward_def Let_def split: option.splits)

lemma cancel_none: "cancelTCPIPForward s st payload = (st', None) \<Longrightarrow> st' = st"
  by (auto simp: cancelTCPIPForward_def Let_def split: option.splits)

text \<open>
  C20. A remote forward is opened only when the policy and the certificate allow forwarding and the
  account may bind the port; without gateway ports the operating system is only ever asked for
  the loopback address, whatever address the client named; the forward holds a slot, is known
  under the port it got and is on the audit log.
\<close>

theorem remote_forward_safe:
  assumes "tcpipForward s st (Some f) listen = (s', st', FwdOpened addr ln port)"
  shows "AllowForwarding (srvPolicy s) \<and> Extensions (st_perms st) ''permit-port-forwarding'' \<noteq> None \<and>
    unat (BindPort f) \<le> 65535 \<and>
    (0 < unat (BindPort f) \<and> unat (BindPort f) < 1024 \<longrightarrow> (\<exists>a. st_user st = Some a \<and> acUID a = 0)) \<and>
    (\<not> GatewayPorts (srvPolicy s) \<longrightarrow> addr = ''127.0.0.1:'' @ format_uint (unat (BindPort f))) \<and>
    sem_used (channels st') = Suc (sem_used (channels st)) \<and>
    (\<exists>m. forwards st' = Some m \<and>
       m (forwardAddr (f\<lparr>BindPort := port\<rparr>) (GatewayPorts (srvPolicy s))) = Some ln) \<and>
    (\<exists>ev. auditLog s' = auditLog s @ [ev] \<and> evType ev = eventRemoteForward \<and> evTarget ev = ln_addr ln)"
proof -
  from assms obtain g m st1 where fg: "f = g" and allow: "forwardingAllowed s st" "\<not> BindPort f > 65535"
    and priv: "BindPort f = 0 \<or> \<not> BindPort f < 1024 \<or> (\<exists>a. st_user st = Some a \<and> acUID a = 0)"
    and addr: "addr = forwardAddr f (GatewayPorts (srvPolicy s))"
    and st1: "acquireChannel st = Some st1"
    and st': "st' = st1\<lparr>forwards := Some (m(forwardAddr (f\<lparr>BindPort := port\<rparr>) (GatewayPorts (srvPolicy s)) \<mapsto> ln))\<rparr>"
    and s': "s' = emit s ((connEvent (st_meta st) eventRemoteForward)\<lparr>evTarget := ln_addr ln\<rparr>)"
    by (elim tcpipForward_opened) auto
  have "unat (BindPort f) \<le> 65535"
    using allow(2) by (simp add: word_less_nat_alt)
  moreover have "0 < unat (BindPort f) \<and> unat (BindPort f) < 1024 \<longrightarrow> (\<exists>a. st_user st = Some a \<and> acUID a = 0)"
    using priv by (auto simp: word_less_nat_alt)
  moreover have "\<not> GatewayPorts (srvPolicy s) \<longrightarrow> addr = ''127.0.0.1:'' @ format_uint (unat (BindPort f))"
    by (simp add: addr forwardAddr_def join_host_port_def)
  ultimately show ?thesis
    using allow channel_pool.take_some [OF st1] st' s'
    by (auto simp: forwardingAllowed_def certExt_def split: option.splits)
qed

end
