(* ===== verification/Conn_Channels.thy ===== *)
theory Conn_Channels
  imports Forward
begin

text \<open>
  The goroutines of one connection that share its channel slots: \<^verbatim>\<open>handleConn\<close> serves channels,
  \<^verbatim>\<open>handleGlobalRequests\<close> opens and cancels forwards, each forward has an accept loop
  (\<^verbatim>\<open>acceptForwarded\<close>) that hands accepted connections to further goroutines, and
  \<^verbatim>\<open>close\<close> runs when the connection ends. A step is one atomic part of one of them.
\<close>

text \<open>
  \<open>open_lns\<close> are the listeners open in the operating system, \<open>acceptors\<close> the running accept
  loops by listener, \<open>chans\<close> the goroutines that hold a slot for a channel, \<open>seen\<close> every
  listener there ever was. The policy is the server's and may change at any time. A remote forward is
  one step, from its slot to the entry of its listener: \<^verbatim>\<open>tcpipForward\<close> holds the lock of the connection all that time, and
  the slot it holds while \<^verbatim>\<open>Listen\<close> runs can only make another channel be refused earlier.
\<close>

record conn_sys =
  cs_srv :: server
  cs_st :: connState
  open_lns :: "nat set"
  acceptors :: "nat multiset"
  chans :: nat
  seen :: "nat set"

inductive conn_step :: "conn_sys \<Rightarrow> conn_sys \<Rightarrow> bool" where
  open_channel: "dispatch_channel (cs_st y) ctype = (st', d) \<Longrightarrow> d = ServeSession \<or> d = ServeDirect \<Longrightarrow>
    conn_step y (y\<lparr>cs_st := st', chans := Suc (chans y)\<rparr>)"
| end_channel: "chans y = Suc n \<Longrightarrow> releaseChannel (cs_st y) = Some st' \<Longrightarrow>
    conn_step y (y\<lparr>cs_st := st', chans := n\<rparr>)"
| forward: "tcpipForward (cs_srv y) (cs_st y) (Some f) listen = (s', st', FwdOpened addr ln port) \<Longrightarrow>
    ln_id ln \<notin> seen y \<Longrightarrow>
    (\<And>m. forwards (cs_st y) = Some m \<Longrightarrow>
       m (forwardAddr (f\<lparr>BindPort := port\<rparr>) (GatewayPorts (srvPolicy (cs_srv y)))) = None) \<Longrightarrow>
    conn_step y (y\<lparr>cs_srv := s', cs_st := st', open_lns := insert (ln_id ln) (open_lns y),
       acceptors := add_mset (ln_id ln) (acceptors y), seen := insert (ln_id ln) (seen y)\<rparr>)"
| cancel: "cancelTCPIPForward (cs_srv y) (cs_st y) p = (st', Some ln) \<Longrightarrow>
    conn_step y (y\<lparr>cs_st := st', open_lns := open_lns y - {ln_id ln}\<rparr>)"
| accept_conn: "ln_id ln \<in># acceptors y \<Longrightarrow> ln_id ln \<in> open_lns y \<Longrightarrow>
    acceptForwarded (cs_st y) ln bind (Some r) = (Some st', OpenForwarded d) \<Longrightarrow>
    conn_step y (y\<lparr>cs_st := st', chans := Suc (chans y)\<rparr>)"
| accept_error: "ln_id ln \<in># acceptors y \<Longrightarrow>
    acceptForwarded (cs_st y) ln bind None = (Some st', LoopEnds) \<Longrightarrow>
    conn_step y (y\<lparr>cs_st := st', acceptors := acceptors y - {#ln_id ln#}\<rparr>)"
| agent_conn: "acquireChannel (cs_st y) = Some st' \<Longrightarrow>
    conn_step y (y\<lparr>cs_st := st', chans := Suc (chans y)\<rparr>)"
| teardown: "close_forwards (cs_st y) = (st', lns) \<Longrightarrow>
    conn_step y (y\<lparr>cs_st := st', open_lns := open_lns y - ln_id ` lns\<rparr>)"
| set_policy: "conn_step y (y\<lparr>cs_srv := SetPolicy (cs_srv y) p\<rparr>)"

text \<open>
  The premise of the rule \<open>forward\<close> on the map is a promise of the operating system: it does not
  hand out an address under which a listener of this connection is registered. The rule
  \<open>agent_conn\<close> is a connection to the agent socket of a session (\<^verbatim>\<open>serveAgent\<close>). A failed
  \<^verbatim>\<open>Accept\<close> ends the loop both when the listener was closed and on any other error.
\<close>

definition conn_init :: "conn_sys \<Rightarrow> bool" where
  "conn_init y \<longleftrightarrow> (\<exists>meta perms limit. cs_st y = newConnState meta perms limit) \<and>
     open_lns y = {} \<and> acceptors y = {#} \<and> chans y = 0 \<and> seen y = {}"

definition registered :: "connState \<Rightarrow> nat \<Rightarrow> bool" where
  "registered st i \<longleftrightarrow> (\<exists>m k ln. forwards st = Some m \<and> m k = Some ln \<and> ln_id ln = i)"

definition conn_inv :: "conn_sys \<Rightarrow> bool" where
  "conn_inv y \<longleftrightarrow>
     sem_used (channels (cs_st y)) = chans y + size (acceptors y) \<and>
     sem_used (channels (cs_st y)) \<le> sem_cap (channels (cs_st y)) \<and>
     (\<forall>i \<in> open_lns y. registered (cs_st y) i)"

inductive_cases conn_stepE: "conn_step y z"

lemma registeredI:
  "forwards st = Some m \<Longrightarrow> m k = Some ln \<Longrightarrow> ln_id ln = i \<Longrightarrow> registered st i"
  unfolding registered_def by blast

lemma registered_channels [simp]: "registered (st\<lparr>channels := q\<rparr>) i = registered st i"
  by (simp add: registered_def)

lemma registered_acquire: "acquireChannel st = Some st' \<Longrightarrow> registered st' i = registered st i"
  by (auto dest!: acquireChannel_frame)

lemma registered_release: "releaseChannel st = Some st' \<Longrightarrow> registered st' i = registered st i"
  by (auto dest!: releaseChannel_frame)

lemma conn_inv_take:
  assumes "conn_inv y" "acquireChannel (cs_st y) = Some st'"
  shows "conn_inv (y\<lparr>cs_st := st', chans := Suc (chans y)\<rparr>)"
  using assms channel_pool.take_some [OF assms(2)] channel_pool.take_below [OF assms(2)]
  by (auto simp: conn_inv_def registered_acquire)

lemma dispatch_acquires:
  assumes "dispatch_channel st ctype = (st', d)" "d = ServeSession \<or> d = ServeDirect"
  shows "acquireChannel st = Some st'"
  using assms by (auto simp: dispatch_channel_def split: if_splits option.splits)

lemma conn_inv_give:
  assumes "conn_inv y" "chans y = Suc n" "releaseChannel (cs_st y) = Some st'"
  shows "conn_inv (y\<lparr>cs_st := st', chans := n\<rparr>)"
  using assms channel_pool.give_some [OF assms(3)]
  by (auto simp: conn_inv_def registered_release)

lemma conn_inv_accept_error:
  assumes "conn_inv y" "i \<in># acceptors y" "releaseChannel (cs_st y) = Some st'"
  shows "conn_inv (y\<lparr>cs_st := st', acceptors := acceptors y - {#i#}\<rparr>)"
proof -
  from assms(2) have "size (acceptors y) = Suc (size (acceptors y - {#i#}))"
    by (metis size_Suc_Diff1)
  with assms channel_pool.give_some [OF assms(3)] show ?thesis
    by (auto simp: conn_inv_def registered_release)
qed

lemma conn_inv_forward:
  assumes inv: "conn_inv y"
    and fwd: "tcpipForward (cs_srv y) (cs_st y) (Some f) listen = (s', st', FwdOpened addr ln port)"
    and free: "\<And>m. forwards (cs_st y) = Some m \<Longrightarrow>
       m (forwardAddr (f\<lparr>BindPort := port\<rparr>) (GatewayPorts (srvPolicy (cs_srv y)))) = None"
  shows "conn_inv (y\<lparr>cs_srv := s', cs_st := st', open_lns := insert (ln_id ln) (open_lns y),
       acceptors := add_mset (ln_id ln) (acceptors y), seen := S\<rparr>)"
proof -
  let ?k = "forwardAddr (f\<lparr>BindPort := port\<rparr>) (GatewayPorts (srvPolicy (cs_srv y)))"
  from fwd obtain m st1 where m: "forwards (cs_st y) = Some m" and st1: "acquireChannel (cs_st y) = Some st1"
    and st': "st' = st1\<lparr>forwards := Some (m(?k \<mapsto> ln))\<rparr>"
    by (elim tcpipForward_opened) auto
  have "registered st' i" if "registered (cs_st y) i" for i
  proof -
    from that m obtain k l where "m k = Some l" "ln_id l = i" by (auto simp: registered_def)
    moreover from this(1) free [OF m] have "k \<noteq> ?k" by auto
    ultimately show ?thesis
      by (intro registeredI [of _ "m(?k \<mapsto> ln)" k l]) (simp_all add: st')
  qed
  moreover have "registered st' (ln_id ln)" by (auto simp: registered_def st')
  ultimately show ?thesis
    using inv st' channel_pool.take_some [OF st1] channel_pool.take_below [OF st1]
    by (auto simp: conn_inv_def)
qed

lemma conn_inv_cancel:
  assumes inv: "conn_inv y" and can: "cancelTCPIPForward (cs_srv y) (cs_st y) p = (st', Some ln)"
  shows "conn_inv (y\<lparr>cs_st := st', open_lns := open_lns y - {ln_id ln}\<rparr>)"
proof -
  from can obtain m addr where m: "forwards (cs_st y) = Some m" "m addr = Some ln"
    and st': "st' = (cs_st y)\<lparr>forwards := Some (m(addr := None))\<rparr>"
    by (rule cancel_some)
  have "registered st' i" if "registered (cs_st y) i" "i \<noteq> ln_id ln" for i
  proof -
    from that m obtain k l where k: "m k = Some l" "ln_id l = i" by (auto simp: registered_def)
    with that(2) m(2) have "k \<noteq> addr" by auto
    with k show ?thesis
      by (intro registeredI [of _ "m(addr := None)" k l]) (simp_all add: st')
  qed
  with inv st' show ?thesis by (auto simp: conn_inv_def)
qed

lemma conn_inv_teardown:
  assumes inv: "conn_inv y" and cl: "close_forwards (cs_st y) = (st', lns)"
  shows "open_lns y - ln_id ` lns = {}"
    and "conn_inv (y\<lparr>cs_st := st', open_lns := open_lns y - ln_id ` lns\<rparr>)"
proof -
  show e: "open_lns y - ln_id ` lns = {}"
    using inv cl by (force simp: conn_inv_def registered_def close_forwards_def ran_def)
  show "conn_inv (y\<lparr>cs_st := st', open_lns := open_lns y - ln_id ` lns\<rparr>)"
    unfolding e using inv cl by (auto simp: conn_inv_def close_forwards_def)
qed

interpretation conn: transition_system conn_init conn_step conn_inv
proof
  fix y assume "conn_init y"
  then show "conn_inv y" by (auto simp: conn_init_def conn_inv_def newConnState_def make_sem_def)
next
  fix y z assume inv: "conn_inv y" and "conn_step y z"
  from this(2) show "conn_inv z"
  proof cases
    case (open_channel ctype st' d)
    then show ?thesis using inv by (auto dest: dispatch_acquires intro: conn_inv_take)
  next
    case (set_policy p)
    then show ?thesis using inv by (simp add: conn_inv_def)
  qed (use inv in \<open>auto intro: conn_inv_take conn_inv_give conn_inv_accept_error conn_inv_forward
      conn_inv_cancel conn_inv_teardown dest: acceptForwarded_open acceptForwarded_end\<close>)
qed

text \<open>
  C21. Over every interleaving of a connection's channels, forwards, accept loops, policy changes
  and teardown, the slots in use are exactly the channels and the accept loops, they never pass
  the limit, giving one back never blocks, and once the connection is torn down none of its
  listeners is open.
\<close>

theorem channel_slots_accounted:
  assumes "conn_init y" and "conn_step\<^sup>*\<^sup>* y z"
  shows "sem_used (channels (cs_st z)) = chans z + size (acceptors z) \<and>
    sem_used (channels (cs_st z)) \<le> sem_cap (channels (cs_st z)) \<and>
    (0 < chans z + size (acceptors z) \<longrightarrow> releaseChannel (cs_st z) \<noteq> None) \<and>
    (forwards (cs_st z) = None \<longrightarrow> open_lns z = {})"
proof -
  from assms have "conn_inv z" by (rule conn.inv_reachable)
  then show ?thesis
    by (auto simp: conn_inv_def registered_def channel_pool.give_none)
qed

section \<open>A concrete connection\<close>

definition ex_perms :: permissions where
  "ex_perms = \<lparr>CriticalOptions = Map.empty,
     Extensions = [''permit-port-forwarding'' \<mapsto> '''', ''permit-pty'' \<mapsto> ''''],
     ExtraAccount = Some ex_account\<rparr>"

definition ex_conn :: conn_sys where
  "ex_conn = \<lparr>cs_srv = ex_server, cs_st = newConnState ex_meta ex_perms 50, open_lns = {},
     acceptors = {#}, chans = 0, seen = {}\<rparr>"

definition ex_fwd :: tcpipForwardData where
  "ex_fwd = \<lparr>BindAddr = ''localhost'', BindPort = 8080\<rparr>"

definition ex_listen :: "string \<Rightarrow> listener option" where
  "ex_listen a = Some (Listener 7 ''127.0.0.1:8080'')"

lemma ex_addr_port: "snd (addrPort ''127.0.0.1:8080'') = 8080"
  by (simp add: addrPort_def net_eval)

lemma ex_forward:
  "tcpipForward ex_server (newConnState ex_meta ex_perms 50) (Some ex_fwd) ex_listen =
     (emit ex_server ((connEvent ex_meta eventRemoteForward)\<lparr>evTarget := ''127.0.0.1:8080''\<rparr>),
      (newConnState ex_meta ex_perms 50)\<lparr>channels := \<lparr>sem_cap = 50, sem_used = 1\<rparr>,
        forwards := Some [forwardAddr ex_fwd False \<mapsto> Listener 7 ''127.0.0.1:8080'']\<rparr>,
      FwdOpened (forwardAddr ex_fwd False) (Listener 7 ''127.0.0.1:8080'') 8080)"
proof -
  have allow: "forwardingAllowed ex_server (newConnState ex_meta ex_perms 50)"
    by (simp add: forwardingAllowed_def ex_server_def DefaultPolicy_def newConnState_def certExt_def
        ex_perms_def)
  have gw: "GatewayPorts (srvPolicy ex_server) = False"
    by (simp add: ex_server_def DefaultPolicy_def)
  have port: "BindPort ex_fwd = 8080" "ex_fwd\<lparr>BindPort := 8080\<rparr> = ex_fwd"
    by (simp_all add: ex_fwd_def)
  have acq: "acquireChannel (newConnState ex_meta ex_perms 50) =
      Some ((newConnState ex_meta ex_perms 50)\<lparr>channels := \<lparr>sem_cap = 50, sem_used = 1\<rparr>\<rparr>)"
    by (simp add: acquireChannel_def sem_try_def make_sem_def newConnState_def)
  have st: "forwards (newConnState ex_meta ex_perms 50) = Some Map.empty"
    "st_meta (newConnState ex_meta ex_perms 50) = ex_meta"
    by (simp_all add: newConnState_def)
  show ?thesis
    unfolding tcpipForward_def Let_def ex_listen_def
    by (simp add: allow gw port acq st ex_addr_port)
qed

lemma ex_conn_init: "conn_init ex_conn"
  by (auto simp: conn_init_def ex_conn_def)

definition ex_conn1 :: conn_sys where
  "ex_conn1 = \<lparr>cs_srv = emit ex_server ((connEvent ex_meta eventRemoteForward)\<lparr>evTarget := ''127.0.0.1:8080''\<rparr>),
     cs_st = (newConnState ex_meta ex_perms 50)\<lparr>channels := \<lparr>sem_cap = 50, sem_used = 1\<rparr>,
        forwards := Some [forwardAddr ex_fwd False \<mapsto> Listener 7 ''127.0.0.1:8080'']\<rparr>,
     open_lns = {7}, acceptors = {#7#}, chans = 0, seen = {7}\<rparr>"

lemma ex_conn_run: "conn_step\<^sup>*\<^sup>* ex_conn ex_conn1"
proof -
  have sel: "cs_srv ex_conn = ex_server" "cs_st ex_conn = newConnState ex_meta ex_perms 50"
    "seen ex_conn = {}" "forwards (newConnState ex_meta ex_perms 50) = Some Map.empty"
    by (simp_all add: ex_conn_def newConnState_def)
  have "conn_step ex_conn (ex_conn\<lparr>cs_srv := cs_srv ex_conn1, cs_st := cs_st ex_conn1,
      open_lns := insert 7 (open_lns ex_conn), acceptors := add_mset 7 (acceptors ex_conn),
      seen := insert 7 (seen ex_conn)\<rparr>)"
    using conn_step.forward [of ex_conn ex_fwd ex_listen "cs_srv ex_conn1" "cs_st ex_conn1"
        "forwardAddr ex_fwd False" "Listener 7 ''127.0.0.1:8080''" 8080]
    by (simp add: sel ex_forward) (simp add: ex_conn1_def)
  then have "conn_step ex_conn ex_conn1" by (simp add: ex_conn_def ex_conn1_def)
  then show ?thesis by blast
qed

theorem remote_forward_safe_witness:
  "unat (BindPort ex_fwd) \<le> 65535 \<and> forwardAddr ex_fwd False = ''127.0.0.1:'' @ format_uint (unat (BindPort ex_fwd))"
  using remote_forward_safe [OF ex_forward] by (simp add: ex_server_def DefaultPolicy_def)

theorem channel_slots_accounted_witness:
  "conn_init ex_conn \<and> conn_step\<^sup>*\<^sup>* ex_conn ex_conn1 \<and>
   sem_used (channels (cs_st ex_conn1)) = chans ex_conn1 + size (acceptors ex_conn1)"
  using channel_slots_accounted [OF ex_conn_init ex_conn_run] ex_conn_init ex_conn_run by blast

text \<open>
  An accept loop that ends on an error of \<^verbatim>\<open>Accept\<close> other than a closed listener gives its
  slot back and leaves the listener open: a connection can reach a state where a forward listens
  and no slot is in use.
\<close>

theorem accept_error_frees_slot_of_open_listener:
  "\<exists>y z. conn_init y \<and> conn_step\<^sup>*\<^sup>* y z \<and> open_lns z \<noteq> {} \<and> sem_used (channels (cs_st z)) = 0"
proof -
  let ?st = "(cs_st ex_conn1)\<lparr>channels := \<lparr>sem_cap = 50, sem_used = 0\<rparr>\<rparr>"
  let ?z = "ex_conn1\<lparr>cs_st := ?st, acceptors := acceptors ex_conn1 - {#7#}\<rparr>"
  have "releaseChannel (cs_st ex_conn1) = Some ?st"
    by (simp add: releaseChannel_def sem_recv_def ex_conn1_def)
  then have acc: "acceptForwarded (cs_st ex_conn1) (Listener 7 l) [] None = (Some ?st, LoopEnds)" for l
    by (simp add: acceptForwarded_def)
  have "conn_step ex_conn1 ?z"
    using conn_step.accept_error [of "Listener 7 []" ex_conn1, OF _ acc] by (simp add: ex_conn1_def)
  with ex_conn_run have "conn_step\<^sup>*\<^sup>* ex_conn ?z" by (rule rtranclp.rtrancl_into_rtrancl)
  moreover have "open_lns ?z \<noteq> {}" "sem_used (channels (cs_st ?z)) = 0"
    by (simp_all add: ex_conn1_def)
  ultimately show ?thesis using ex_conn_init by blast
qed

text \<open>
  A forward that was opened under gateway ports cannot be cancelled after the policy took them
  back: the request is answered with a failure and the listener stays.
\<close>

theorem cancel_after_policy_change:
  assumes "GatewayPorts (srvPolicy s)" "BindAddr f \<noteq> ''127.0.0.1''"
    and "forwards st = Some [forwardAddr f (GatewayPorts (srvPolicy s)) \<mapsto> ln]"
    and "\<not> GatewayPorts p"
  shows "cancelTCPIPForward (SetPolicy s p) st (Some f) = (st, None)"
proof -
  have "forwardAddr f False \<noteq> forwardAddr f True"
    using assms(2) by (auto simp: forwardAddr_def join_host_port_def Let_def split: if_splits)
  with assms show ?thesis by (simp add: cancelTCPIPForward_def SetPolicy_def Let_def)
qed

theorem cancel_after_policy_change_witness:
  "cancelTCPIPForward
     (SetPolicy (SetPolicy ex_server (DefaultPolicy\<lparr>GatewayPorts := True\<rparr>)) DefaultPolicy)
     ((newConnState ex_meta ex_perms 50)\<lparr>forwards := Some [forwardAddr ex_fwd True \<mapsto> Listener 7 ''0.0.0.0:8080'']\<rparr>)
     (Some ex_fwd)
   = ((newConnState ex_meta ex_perms 50)\<lparr>forwards := Some [forwardAddr ex_fwd True \<mapsto> Listener 7 ''0.0.0.0:8080'']\<rparr>, None)"
  by (rule cancel_after_policy_change)
    (simp_all add: SetPolicy_def DefaultPolicy_def ex_fwd_def)

end
