(* ===== verification/Go_Utf8.thy ===== *)
theory Go_Utf8
  imports Nokkud_Prelude
begin

text \<open>
  The Go package \<^verbatim>\<open>unicode/utf8\<close> on byte strings: the table of first bytes with the range
  allowed for the second one, decoding and encoding of one character, and the two tests the
  recorder cuts its chunks with, \<^verbatim>\<open>RuneStart\<close> and \<^verbatim>\<open>FullRune\<close>.
\<close>

abbreviation byte :: "char \<Rightarrow> nat" where
  "byte c \<equiv> of_char c"

type_synonym rune = nat

definition RuneError :: rune where "RuneError = 0xFFFD"

text \<open>The length a first byte announces, and the range of the second byte.\<close>

definition utf8_lead :: "char \<Rightarrow> (nat \<times> nat \<times> nat) option" where
  "utf8_lead c =
     (let b = byte c in
      if b < 0x80 then Some (1, 0x80, 0xBF)
      else if b < 0xC2 then None
      else if b < 0xE0 then Some (2, 0x80, 0xBF)
      else if b = 0xE0 then Some (3, 0xA0, 0xBF)
      else if b = 0xED then Some (3, 0x80, 0x9F)
      else if b < 0xF0 then Some (3, 0x80, 0xBF)
      else if b = 0xF0 then Some (4, 0x90, 0xBF)
      else if b < 0xF4 then Some (4, 0x80, 0xBF)
      else if b = 0xF4 then Some (4, 0x80, 0x8F)
      else None)"

definition in_range :: "nat \<Rightarrow> nat \<Rightarrow> char \<Rightarrow> bool" where
  "in_range lo hi c = (lo \<le> byte c \<and> byte c \<le> hi)"

definition is_cont :: "char \<Rightarrow> bool" where
  "is_cont c = in_range 0x80 0xBF c"

definition RuneStart :: "char \<Rightarrow> bool" where
  "RuneStart c = (\<not> is_cont c)"

definition FullRune :: "bytes \<Rightarrow> bool" where
  "FullRune p =
     (case p of [] \<Rightarrow> False
      | c # cs \<Rightarrow>
          (case utf8_lead c of None \<Rightarrow> True
           | Some (n, lo, hi) \<Rightarrow>
               if length p \<ge> n then True
               else if length p > 1 \<and> \<not> in_range lo hi (p ! 1) then True
               else length p > 2 \<and> \<not> is_cont (p ! 2)))"

text \<open>A byte string that is exactly one well-formed character.\<close>

definition utf8_char :: "bytes \<Rightarrow> bool" where
  "utf8_char p =
     (case p of [] \<Rightarrow> False
      | c # cs \<Rightarrow>
          (case utf8_lead c of None \<Rightarrow> False
           | Some (n, lo, hi) \<Rightarrow>
               length p = n \<and> (n > 1 \<longrightarrow> in_range lo hi (hd cs)) \<and> list_all is_cont (tl cs)))"

function valid_utf8 :: "bytes \<Rightarrow> bool" where
  "valid_utf8 [] = True"
| "valid_utf8 (c # cs) =
     (case utf8_lead c of None \<Rightarrow> False
      | Some (n, lo, hi) \<Rightarrow> utf8_char (take n (c # cs)) \<and> valid_utf8 (drop (n - 1) cs))"
  by pat_completeness auto
termination by (relation "measure length") auto

text \<open>\<^verbatim>\<open>DecodeRune\<close>: an ill-formed sequence is \<open>RuneError\<close> and one byte long.\<close>

definition rune_bits :: "bytes \<Rightarrow> rune" where
  "rune_bits p =
     (case map byte p of
        [a] \<Rightarrow> a
      | [a, b] \<Rightarrow> (a - 0xC0) * 64 + (b - 0x80)
      | [a, b, c] \<Rightarrow> ((a - 0xE0) * 64 + (b - 0x80)) * 64 + (c - 0x80)
      | [a, b, c, d] \<Rightarrow> (((a - 0xF0) * 64 + (b - 0x80)) * 64 + (c - 0x80)) * 64 + (d - 0x80)
      | _ \<Rightarrow> RuneError)"

definition DecodeRune :: "bytes \<Rightarrow> rune \<times> nat" where
  "DecodeRune p =
     (case p of [] \<Rightarrow> (RuneError, 0)
      | c # cs \<Rightarrow>
          (case utf8_lead c of None \<Rightarrow> (RuneError, 1)
           | Some (n, lo, hi) \<Rightarrow>
               if utf8_char (take n p) then (rune_bits (take n p), n) else (RuneError, 1)))"

definition encode_rune :: "rune \<Rightarrow> bytes" where
  "encode_rune r0 =
     (let r = (if r0 > 0x10FFFF \<or> 0xD800 \<le> r0 \<and> r0 \<le> 0xDFFF then RuneError else r0) in
      map char_of
       (if r < 0x80 then [r]
        else if r < 0x800 then [0xC0 + r div 64, 0x80 + r mod 64]
        else if r < 0x10000 then [0xE0 + r div 4096, 0x80 + r div 64 mod 64, 0x80 + r mod 64]
        else [0xF0 + r div 262144, 0x80 + r div 4096 mod 64, 0x80 + r div 64 mod 64, 0x80 + r mod 64]))"

text \<open>What \<^verbatim>\<open>range\<close> over a string yields.\<close>

function runes :: "bytes \<Rightarrow> rune list" where
  "runes [] = []"
| "runes (c # cs) = fst (DecodeRune (c # cs)) # runes (drop (snd (DecodeRune (c # cs)) - 1) cs)"
  by pat_completeness auto
termination by (relation "measure length") auto

text \<open>\<^verbatim>\<open>strings.ToValidUTF8(s, "")\<close> keeps the well-formed characters.\<close>

function to_valid_utf8 :: "bytes \<Rightarrow> bytes" where
  "to_valid_utf8 [] = []"
| "to_valid_utf8 (c # cs) =
     (case utf8_lead c of
        Some (n, lo, hi) \<Rightarrow>
          if utf8_char (take n (c # cs)) then take n (c # cs) @ to_valid_utf8 (drop (n - 1) cs)
          else to_valid_utf8 cs
      | None \<Rightarrow> to_valid_utf8 cs)"
  by pat_completeness auto
termination by (relation "measure length") auto

section \<open>Lemmas\<close>

lemma utf8_lead_bounds:
  assumes "utf8_lead c = Some (n, lo, hi)"
  shows "1 \<le> n \<and> n \<le> 4 \<and> 0x80 \<le> lo \<and> hi \<le> 0xBF"
  using assms by (auto simp: utf8_lead_def Let_def split: if_splits)

lemma utf8_lead_start: "utf8_lead c \<noteq> None \<Longrightarrow> RuneStart c"
  by (auto simp: utf8_lead_def Let_def RuneStart_def is_cont_def in_range_def split: if_splits)

lemma in_range_cont: "\<lbrakk>in_range lo hi c; 0x80 \<le> lo; hi \<le> 0xBF\<rbrakk> \<Longrightarrow> is_cont c"
  by (simp add: in_range_def is_cont_def)

lemma utf8_char_Cons:
  "utf8_char p \<Longrightarrow> \<exists>c cs n lo hi. p = c # cs \<and> utf8_lead c = Some (n, lo, hi) \<and> length cs + 1 = n \<and>
     (cs \<noteq> [] \<longrightarrow> in_range lo hi (hd cs)) \<and> list_all is_cont cs"
proof -
  assume a: "utf8_char p"
  then obtain c cs n lo hi where p: "p = c # cs" "utf8_lead c = Some (n, lo, hi)" "length cs + 1 = n"
    "n > 1 \<longrightarrow> in_range lo hi (hd cs)" "list_all is_cont (tl cs)"
    by (auto simp: utf8_char_def split: list.splits option.splits)
  have "list_all is_cont cs"
    using p utf8_lead_bounds [OF p(2)] by (cases cs) (auto intro: in_range_cont)
  with p show ?thesis by (cases cs) auto
qed

text \<open>A valid string is a sequence of characters.\<close>

lemma valid_utf8_chars: "valid_utf8 s \<longleftrightarrow> (\<exists>cs. s = concat cs \<and> list_all utf8_char cs)"
proof (induction s rule: valid_utf8.induct)
  case 1
  have "[] = concat [] \<and> list_all utf8_char []" by simp
  then show ?case by (metis valid_utf8.simps(1))
next
  case (2 c cs)
  show ?case
  proof
    assume v: "valid_utf8 (c # cs)"
    then obtain n lo hi where l: "utf8_lead c = Some (n, lo, hi)" and ch: "utf8_char (take n (c # cs))"
      and r: "valid_utf8 (drop (n - 1) cs)" by (auto split: option.splits)
    from r 2 [OF l refl refl] obtain ds where "drop (n - 1) cs = concat ds" "list_all utf8_char ds" by auto
    moreover from utf8_lead_bounds [OF l] have "c # cs = take n (c # cs) @ drop (n - 1) cs"
      by (cases n) auto
    ultimately show "\<exists>ds. c # cs = concat ds \<and> list_all utf8_char ds"
      using ch by (intro exI [of _ "take n (c # cs) # ds"]) (metis concat.simps(2) list.pred_inject(2))
  next
    assume "\<exists>ds. c # cs = concat ds \<and> list_all utf8_char ds"
    then obtain d ds where d: "c # cs = d @ concat ds" "utf8_char d" "list_all utf8_char ds"
      by (metis concat.simps list.exhaust list.distinct(1) list.pred_inject(2))
    from utf8_char_Cons [OF d(2)] obtain es n lo hi
      where p: "d = c # es" "utf8_lead c = Some (n, lo, hi)" "length es + 1 = n"
      using d(1) by auto
    then have "take n (c # cs) = d" "drop (n - 1) cs = concat ds" using d(1) by auto
    with 2 [OF p(2) refl refl] p d show "valid_utf8 (c # cs)" by auto
  qed
qed

lemma valid_utf8_append: "valid_utf8 a \<Longrightarrow> valid_utf8 b \<Longrightarrow> valid_utf8 (a @ b)"
  unfolding valid_utf8_chars by (metis concat_append list_all_append)

lemma valid_utf8_cons_char: "utf8_char c \<Longrightarrow> valid_utf8 (c @ s) = valid_utf8 s"
proof -
  assume ch: "utf8_char c"
  from utf8_char_Cons [OF ch] obtain d ds n lo hi where c: "c = d # ds" "utf8_lead d = Some (n, lo, hi)"
    "length ds + 1 = n" by blast
  then have "take n (c @ s) = c" "drop (n - 1) (ds @ s) = s" by auto
  with c ch show ?thesis by auto
qed

lemma valid_utf8_suffix:
  assumes "valid_utf8 a" "valid_utf8 (a @ b)"
  shows "valid_utf8 b"
proof -
  from assms(1) obtain cs where "a = concat cs" "list_all utf8_char cs" by (auto simp: valid_utf8_chars)
  with assms(2) show ?thesis
    by (induction cs arbitrary: a) (auto simp: valid_utf8_cons_char)
qed

text \<open>The start of a character that is not the whole of it is not a full rune, and begins with its first byte.\<close>

lemma proper_prefix_not_full:
  assumes "utf8_char (t @ u)" "t \<noteq> []" "u \<noteq> []"
  shows "\<not> FullRune t \<and> RuneStart (hd t) \<and> list_all is_cont (tl t) \<and> length t \<le> 3"
proof -
  from utf8_char_Cons [OF assms(1)] assms(2) obtain c cs n lo hi where
    p: "t = c # cs" "utf8_lead c = Some (n, lo, hi)" "length (cs @ u) + 1 = n"
      "in_range lo hi (hd (cs @ u))" "list_all is_cont (cs @ u)"
    using assms(3) by (cases t) auto
  have full: "\<not> FullRune t"
    using p assms(3) by (cases cs; cases "tl cs") (auto simp: FullRune_def)
  moreover have "length t \<le> 3"
    using p assms(3) utf8_lead_bounds [OF p(2)] by (cases u) auto
  ultimately show ?thesis using p utf8_lead_start [of c] by auto
qed

lemma utf8_char_full: "utf8_char p \<Longrightarrow> FullRune p"
  by (auto simp: utf8_char_def FullRune_def split: list.splits option.splits)

text \<open>Any prefix of a valid string is valid up to a started character.\<close>

lemma valid_prefix_split:
  assumes "list_all utf8_char cs" "concat cs = p @ q"
  shows "\<exists>ds t. p = concat ds @ t \<and> list_all utf8_char ds \<and>
    (t = [] \<or> (\<exists>u. u \<noteq> [] \<and> utf8_char (t @ u)))"
  using assms
proof (induction cs arbitrary: p)
  case Nil
  then show ?case by (intro exI [of _ "[]"]) auto
next
  case (Cons c cs)
  then consider t where "p = c @ t" "concat cs = t @ q" | u where "u \<noteq> []" "c = p @ u"
    by (auto simp: append_eq_append_conv2) (metis append_Nil2)+
  then show ?case
  proof cases
    case 1
    with Cons obtain ds r where "t = concat ds @ r" "list_all utf8_char ds"
      "r = [] \<or> (\<exists>u. u \<noteq> [] \<and> utf8_char (r @ u))" by fastforce
    with 1 Cons.prems show ?thesis by (intro exI [of _ "c # ds"] exI [of _ r]) auto
  next
    case 2
    with Cons.prems show ?thesis by (intro exI [of _ "[]"] exI [of _ p]) auto
  qed
qed

text \<open>The byte of a separator occurs in the encoding of the separator only.\<close>

lemma encode_rune_ascii:
  assumes "c \<in> set (encode_rune r)" "byte c < 0x80"
  shows "byte c = r"
proof (cases "r < 0x80")
  case True
  with assms show ?thesis by (auto simp: encode_rune_def Let_def RuneError_def)
next
  case False
  define q where "q = (if r > 0x10FFFF \<or> 0xD800 \<le> r \<and> r \<le> 0xDFFF then RuneError else r)"
  have q: "0x80 \<le> q" "q \<le> 0x10FFFF" using False by (auto simp: q_def RuneError_def)
  define ns where "ns = (if q < 0x800 then [0xC0 + q div 64, 0x80 + q mod 64]
        else if q < 0x10000 then [0xE0 + q div 4096, 0x80 + q div 64 mod 64, 0x80 + q mod 64]
        else [0xF0 + q div 262144, 0x80 + q div 4096 mod 64, 0x80 + q div 64 mod 64, 0x80 + q mod 64])"
  have "\<forall>n \<in> set ns. 0x80 \<le> n \<and> n < 256"
  proof -
    have "q < 0x800 \<Longrightarrow> q div 64 < 32" "q < 0x10000 \<Longrightarrow> q div 4096 < 16" "q div 262144 < 5"
      using q by (simp_all add: div_less_iff_less_mult)
    moreover have "q mod 64 < 64" "q div 64 mod 64 < 64" "q div 4096 mod 64 < 64" by simp_all
    ultimately show ?thesis by (auto simp: ns_def)
  qed
  moreover have "encode_rune r = map char_of ns"
    using q by (simp add: encode_rune_def Let_def q_def [symmetric] ns_def)
  ultimately have "0x80 \<le> byte c" using assms(1) by fastforce
  with assms(2) show ?thesis by simp
qed

end
