(* ===== verification/Go_Path.thy ===== *)
theory Go_Path
  imports Nokkud_Prelude
begin

text \<open>
  The part of the Go package \<^verbatim>\<open>path/filepath\<close> the daemon uses, for a Unix system: \<^verbatim>\<open>Clean\<close>,
  \<^verbatim>\<open>Join\<close>, \<^verbatim>\<open>Base\<close> and \<^verbatim>\<open>Dir\<close>. A path is cleaned element by element; the elements kept so
  far are a stack, last element first.
\<close>

fun clean_elems :: "bool \<Rightarrow> string list \<Rightarrow> string list \<Rightarrow> string list" where
  "clean_elems rooted out [] = rev out"
| "clean_elems rooted out (e # es) =
     (if e = '''' \<or> e = ''.'' then clean_elems rooted out es
      else if e = ''..'' then
        (case out of
           [] \<Rightarrow> clean_elems rooted (if rooted then [] else [''..'']) es
         | x # xs \<Rightarrow> if x = ''..'' then clean_elems rooted (''..'' # out) es else clean_elems rooted xs es)
      else clean_elems rooted (e # out) es)"

definition path_clean :: "string \<Rightarrow> string" where
  "path_clean p =
     (let rooted = has_prefix p ''/''; es = clean_elems rooted [] (split_on CHR ''/'' p) in
      if rooted then ''/'' @ join_with ''/'' es
      else if es = [] then ''.'' else join_with ''/'' es)"

definition path_join :: "string list \<Rightarrow> string" where
  "path_join es =
     (case dropWhile (\<lambda>e. e = '''') es of [] \<Rightarrow> '''' | r \<Rightarrow> path_clean (join_with ''/'' r))"

definition path_base :: "string \<Rightarrow> string" where
  "path_base p =
     (if p = '''' then ''.''
      else let q = rev (dropWhile (\<lambda>c. c = CHR ''/'') (rev p));
               b = rev (takeWhile (\<lambda>c. c \<noteq> CHR ''/'') (rev q))
           in if b = '''' then ''/'' else b)"

definition path_dir :: "string \<Rightarrow> string" where
  "path_dir p = path_clean (rev (dropWhile (\<lambda>c. c \<noteq> CHR ''/'') (rev p)))"

text \<open>A base name has no separator, unless it is the root.\<close>

lemma path_base_plain: "path_base p = ''/'' \<or> CHR ''/'' \<notin> set (path_base p)"
  by (auto simp: path_base_def Let_def dest: set_takeWhileD)

lemma path_base_nonempty: "path_base p \<noteq> ''''"
  by (simp add: path_base_def Let_def)

lemma clean_elems_plain:
  "\<lbrakk>set out \<subseteq> {e. e \<noteq> '''' \<and> e \<noteq> ''.'' \<and> (rooted \<longrightarrow> e \<noteq> ''..'')}; e \<in> set (clean_elems rooted out es)\<rbrakk>
   \<Longrightarrow> e \<noteq> '''' \<and> e \<noteq> ''.'' \<and> (rooted \<longrightarrow> e \<noteq> ''..'')"
  by (induction rooted out es rule: clean_elems.induct) (auto split: if_splits list.splits)

text \<open>A cleaned absolute path never climbs above the root.\<close>

lemma path_clean_rooted:
  assumes "has_prefix p ''/''"
  obtains es where "path_clean p = ''/'' @ join_with ''/'' es" "''..'' \<notin> set es"
  using assms clean_elems_plain [of "[]" True "''..''" "split_on CHR ''/'' p"]
  by (auto simp: path_clean_def Let_def)

end
