(* ===== verification/Recording_Files.thy ===== *)
theory Recording_Files
  imports Go_Utf8 Go_Path "HOL-Library.Multiset"
begin

text \<open>
  The files of session recordings, \<^verbatim>\<open>internal/recording\<close>: what a recording is opened with
  (\<^verbatim>\<open>Options\<close> of \<^verbatim>\<open>recorder.go\<close>), its file name (\<^verbatim>\<open>sanitize.go\<close>, \<^verbatim>\<open>recordingPattern\<close>), the
  check of the free disk space (\<^verbatim>\<open>disk.go\<close>) and the retention of recordings that were never
  uploaded (\<^verbatim>\<open>retention.go\<close>).
\<close>

record rec_options =
  optWidth :: int
  optHeight :: int
  optTitle :: string
  optSessionID :: string
  optUser :: string
  optPrincipal :: string
  optTerm :: string
  optMaxSize :: nat

section \<open>File names\<close>

text \<open>
  The tables of the Go package \<^verbatim>\<open>unicode\<close> are an argument: which code points are letters and
  digits, and the lower case of a code point.
\<close>

record unicode_tables =
  IsLetter :: "rune \<Rightarrow> bool"
  IsDigit :: "rune \<Rightarrow> bool"
  ToLower :: "rune \<Rightarrow> rune"

definition maxSnakeCaseLen :: nat where "maxSnakeCaseLen = 64"

fun snake_loop :: "unicode_tables \<Rightarrow> bool \<Rightarrow> rune list \<Rightarrow> bytes" where
  "snake_loop u lastUnderscore [] = []"
| "snake_loop u lastUnderscore (r # rs) =
     (if IsLetter u r \<or> IsDigit u r then encode_rune (ToLower u r) @ snake_loop u False rs
      else if \<not> lastUnderscore then CHR ''_'' # snake_loop u True rs
      else snake_loop u lastUnderscore rs)"

definition toSnakeCase :: "unicode_tables \<Rightarrow> string \<Rightarrow> string" where
  "toSnakeCase u s =
     (let res = snake_loop u True (runes s);
          res1 = (if length res > maxSnakeCaseLen then to_valid_utf8 (take maxSnakeCaseLen res) else res);
          res2 = (if res1 \<noteq> [] \<and> last res1 = CHR ''_'' then butlast res1 else res1)
      in if res2 = [] then ''untitled'' else res2)"

definition castSuffix :: string where "castSuffix = ''.cast.gz''"

text \<open>The pattern of \<^verbatim>\<open>os.CreateTemp\<close>; \<open>stamp\<close> is the formatted time.\<close>

definition recordingPattern :: "unicode_tables \<Rightarrow> string \<Rightarrow> string \<Rightarrow> string \<Rightarrow> string" where
  "recordingPattern u stamp safeLabel sessionID =
     join_with ''-'' ([stamp, safeLabel] @ (if sessionID \<noteq> '''' then [toSnakeCase u sessionID] else []))
     @ ''-*'' @ castSuffix"

section \<open>Free space\<close>

datatype disk_error = StatfsFailed | BadBlockSize | LowDiskSpace "64 word"

definition minFreeDisk :: "64 word" where "minFreeDisk = 536870912"

text \<open>The block size is signed and the product is taken at 64 bits without an overflow check.\<close>

definition checkDiskSpace :: "(64 word \<times> 64 word) option \<Rightarrow> disk_error option" where
  "checkDiskSpace stat =
     (case stat of None \<Rightarrow> Some StatfsFailed
      | Some (bsize, bavail) \<Rightarrow>
          if sint bsize \<le> 0 then Some BadBlockSize
          else if bavail * bsize < minFreeDisk then Some (LowDiskSpace (bavail * bsize))
          else None)"

section \<open>Retention\<close>

record file_info =
  fiName :: string
  fiModTime :: gotime
  fiSize :: int

text \<open>A directory entry; \<open>deInfo\<close> is \<^const>\<open>None\<close> when the file is gone before it is examined.\<close>

record dir_entry =
  deName :: string
  deIsDir :: bool
  deInfo :: "file_info option"

datatype read_dir = DirMissing | DirFailed | DirEntries "dir_entry list"

definition maxTotalSpace :: int where "maxTotalSpace = 1073741824"
definition maxAgeSeconds :: "64 word" where "maxAgeSeconds = 2592000"

text \<open>\<open>busy\<close> says whether a path is in \<^verbatim>\<open>active\<close>: still written, or being uploaded.\<close>

fun retention_scan ::
    "(string \<Rightarrow> bool) \<Rightarrow> gotime \<Rightarrow> dir_entry list \<Rightarrow> string list \<times> file_info list \<times> int"
where
  "retention_scan busy cutoff [] = ([], [], 0)"
| "retention_scan busy cutoff (e # es) =
     (case retention_scan busy cutoff es of (expired, kept, tot) \<Rightarrow>
        if deIsDir e \<or> \<not> has_suffix (deName e) castSuffix \<or> busy (deName e) then (expired, kept, tot)
        else case deInfo e of None \<Rightarrow> (expired, kept, tot)
        | Some info \<Rightarrow>
            if time_before (fiModTime info) cutoff then (fiName info # expired, kept, tot)
            else (expired, info # kept, fiSize info + tot))"

fun drop_over :: "int \<Rightarrow> file_info list \<Rightarrow> string list" where
  "drop_over tot [] = []"
| "drop_over tot (k # ks) =
     (if tot > maxTotalSpace then fiName k # drop_over (tot - fiSize k) ks else [])"

text \<open>
  The names \<^verbatim>\<open>enforceRetention\<close> removes, \<^const>\<open>None\<close> when the directory cannot be read.
  \<open>sortfn\<close> is \<^verbatim>\<open>slices.SortFunc\<close> by modification time, which may order equal times freely.
\<close>

definition enforceRetention ::
    "(file_info list \<Rightarrow> file_info list) \<Rightarrow> (string \<Rightarrow> bool) \<Rightarrow> gotime \<Rightarrow> read_dir \<Rightarrow> string list option"
where
  "enforceRetention sortfn busy now rd =
     (case rd of DirMissing \<Rightarrow> Some [] | DirFailed \<Rightarrow> None
      | DirEntries es \<Rightarrow>
          let cutoff = Time (tsec now - maxAgeSeconds) (tnsec now) in
          (case retention_scan busy cutoff es of (expired, kept, tot) \<Rightarrow>
             Some (expired @ drop_over tot (sortfn kept))))"

section \<open>Properties of file names\<close>

lemma to_valid_utf8_subseq: "subseq (to_valid_utf8 s) s"
proof (induction s rule: length_induct)
  case (1 s)
  show ?case
  proof (cases s)
    case (Cons c cs)
    have IH: "subseq (to_valid_utf8 (drop k cs)) (drop k cs)" for k using 1 Cons by simp
    show ?thesis
    proof (cases "utf8_lead c")
      case None
      with IH [of 0] Cons show ?thesis by (auto simp: subseq_Cons')
    next
      case (Some a)
      obtain m lo hi where a: "a = (Suc m, lo, hi)"
        using Some utf8_lead_bounds [of c "fst a"] by (cases a; cases "fst a") fastforce+
      have "subseq (take (Suc m) (c # cs) @ to_valid_utf8 (drop m cs)) (take (Suc m) (c # cs) @ drop m cs)"
        using IH [of m] by (simp only: subseq_append')
      with IH [of 0] Cons Some a show ?thesis by (auto simp: subseq_Cons')
    qed
  qed simp
qed

lemma snake_loop_chars:
  assumes low: "\<And>r. IsLetter u r \<or> IsDigit u r \<Longrightarrow> ToLower u r \<noteq> n" and n: "n < 0x80" "n \<noteq> 95"
    and "c \<in> set (snake_loop u l rs)"
  shows "byte c \<noteq> n"
  using assms(4)
proof (induction rs arbitrary: l)
  case (Cons r rs)
  consider "c \<in> set (encode_rune (ToLower u r))" "IsLetter u r \<or> IsDigit u r" | "c = CHR ''_''"
    | l' where "c \<in> set (snake_loop u l' rs)"
    using Cons.prems by (auto split: if_splits)
  then show ?case
  proof cases
    case 1
    then show ?thesis
      using n(1) encode_rune_ascii [OF 1(1)] low [OF 1(2)] by (cases "byte c < 0x80") auto
  qed (use n(2) Cons.IH in auto)
qed simp

lemma toSnakeCase_chars:
  assumes "c \<in> set (toSnakeCase u s)"
  shows "c \<in> set (snake_loop u True (runes s)) \<or> c \<in> set ''untitled''"
proof -
  let ?res = "snake_loop u True (runes s)"
  let ?res1 = "if length ?res > maxSnakeCaseLen then to_valid_utf8 (take maxSnakeCaseLen ?res) else ?res"
  have "set ?res1 \<subseteq> set ?res"
    using list_emb_set [OF to_valid_utf8_subseq [of "take maxSnakeCaseLen ?res"]]
    by (auto dest: in_set_takeD)
  moreover have "c \<in> set ?res1 \<or> c \<in> set ''untitled''"
    using assms by (auto simp: toSnakeCase_def Let_def dest: in_set_butlastD split: if_splits)
  ultimately show ?thesis by blast
qed

lemma toSnakeCase_bounds: "toSnakeCase u s \<noteq> [] \<and> length (toSnakeCase u s) \<le> maxSnakeCaseLen"
proof -
  let ?res = "snake_loop u True (runes s)"
  let ?res1 = "if length ?res > maxSnakeCaseLen then to_valid_utf8 (take maxSnakeCaseLen ?res) else ?res"
  have "length ?res1 \<le> maxSnakeCaseLen"
    using list_emb_length [OF to_valid_utf8_subseq [of "take maxSnakeCaseLen ?res"]] by auto
  then show ?thesis by (auto simp: toSnakeCase_def Let_def maxSnakeCaseLen_def)
qed

text \<open>
  The file name of a recording is one element of a path whatever the account and the session
  are called: no separator gets into it, and its length is bounded.
\<close>

theorem recording_name_safe:
  assumes "\<And>r. IsLetter u r \<or> IsDigit u r \<Longrightarrow> ToLower u r \<noteq> 47" "CHR ''/'' \<notin> set stamp"
  shows "CHR ''/'' \<notin> set (recordingPattern u stamp (toSnakeCase u user) sid) \<and>
    has_suffix (recordingPattern u stamp (toSnakeCase u user) sid) castSuffix \<and>
    length (recordingPattern u stamp (toSnakeCase u user) sid) \<le> length stamp + 2 * maxSnakeCaseLen + 12"
proof -
  have plain: "CHR ''/'' \<notin> set (toSnakeCase u s)" for s
    using toSnakeCase_chars [of "CHR ''/''" u s] snake_loop_chars [OF assms(1), of "CHR ''/''" True "runes s"]
    by auto
  have len: "length (toSnakeCase u s) \<le> maxSnakeCaseLen" for s
    using toSnakeCase_bounds by blast
  show ?thesis
    using plain [of user] plain [of sid] assms(2) len [of user] len [of sid]
    by (auto simp: recordingPattern_def has_suffix_iff castSuffix_def)
qed

definition ascii_tables :: unicode_tables where
  "ascii_tables = \<lparr>IsLetter = (\<lambda>r. 65 \<le> r \<and> r \<le> 90 \<or> 97 \<le> r \<and> r \<le> 122),
     IsDigit = (\<lambda>r. 48 \<le> r \<and> r \<le> 57), ToLower = (\<lambda>r. if 65 \<le> r \<and> r \<le> 90 then r + 32 else r)\<rparr>"

theorem recording_name_safe_witness:
  "CHR ''/'' \<notin> set (recordingPattern ascii_tables ''20250102T030405Z'' (toSnakeCase ascii_tables ''bob'') ''../x'')"
  by (rule conjunct1, rule recording_name_safe) (auto simp: ascii_tables_def)

section \<open>Properties of the disk check\<close>

text \<open>Without an overflow the check passes exactly when there is room for 512 MiB.\<close>

lemma checkDiskSpace_exact:
  assumes "0 < sint bsize" "unat bavail * unat bsize < 2 ^ 64"
  shows "checkDiskSpace (Some (bsize, bavail)) = None \<longleftrightarrow> 2 ^ 29 \<le> unat bavail * unat bsize"
proof -
  have "unat (bavail * bsize) = unat bavail * unat bsize"
    using assms(2) by (simp add: unat_word_ariths)
  with assms(1) show ?thesis
    by (auto simp: checkDiskSpace_def minFreeDisk_def word_less_nat_alt not_less)
qed

section \<open>Properties of the retention\<close>

text \<open>The recordings the scan looks at: finished, readable, not busy.\<close>

definition candidates :: "(string \<Rightarrow> bool) \<Rightarrow> dir_entry list \<Rightarrow> file_info list" where
  "candidates busy es =
     map (\<lambda>e. the (deInfo e))
       (filter (\<lambda>e. \<not> deIsDir e \<and> has_suffix (deName e) castSuffix \<and> \<not> busy (deName e) \<and> deInfo e \<noteq> None) es)"

lemma retention_scan_eq:
  "retention_scan busy cutoff es =
     (map fiName (filter (\<lambda>i. fiModTime i < cutoff) (candidates busy es)),
      filter (\<lambda>i. \<not> fiModTime i < cutoff) (candidates busy es),
      sum_list (map fiSize (filter (\<lambda>i. \<not> fiModTime i < cutoff) (candidates busy es))))"
  by (induction es) (auto simp: candidates_def time_before_less split: option.splits)

text \<open>
  What is dropped for space is a prefix of the list, just long enough that the rest fits.
\<close>

lemma drop_over_split:
  assumes "tot = sum_list (map fiSize ks)"
  shows "\<exists>ds rs. ks = ds @ rs \<and> drop_over tot ks = map fiName ds \<and>
    sum_list (map fiSize rs) \<le> maxTotalSpace \<and>
    (ds \<noteq> [] \<longrightarrow> maxTotalSpace < fiSize (last ds) + sum_list (map fiSize rs))"
  using assms
proof (induction tot ks rule: drop_over.induct)
  case (2 tot k ks)
  show ?case
  proof (cases "tot > maxTotalSpace")
    case True
    have "tot - fiSize k = sum_list (map fiSize ks)" using 2(2) by simp
    from 2(1) [OF True this] obtain ds rs where d: "ks = ds @ rs" "drop_over (tot - fiSize k) ks = map fiName ds"
      "sum_list (map fiSize rs) \<le> maxTotalSpace"
      "ds \<noteq> [] \<longrightarrow> maxTotalSpace < fiSize (last ds) + sum_list (map fiSize rs)" by blast
    with True 2(2) show ?thesis
      by (intro exI [of _ "k # ds"] exI [of _ rs]) auto
  next
    case False
    with 2(2) show ?thesis by (intro exI [of _ "[]"] exI [of _ "k # ks"]) auto
  qed
qed (auto simp: maxTotalSpace_def)

text \<open>
  C37. Retention: what is removed is a finished recording that nobody writes or uploads; what
  stays of those is younger than thirty days and fits into one gibibyte; what is removed for
  space is older than everything that stays, and no more than needed.
\<close>

theorem retention_sound:
  assumes sorts: "\<And>xs. mset (sortfn xs) = mset xs" "\<And>xs. sorted_wrt (\<lambda>a b. fiModTime a \<le> fiModTime b) (sortfn xs)"
    and cutoff: "cutoff = Time (tsec now - maxAgeSeconds) (tnsec now)"
    and run: "enforceRetention sortfn busy now (DirEntries es) = Some gone"
  shows "\<exists>expired over stay. gone = map fiName expired @ map fiName over \<and>
    mset (expired @ over @ stay) = mset (candidates busy es) \<and>
    (\<forall>i \<in> set expired. fiModTime i < cutoff) \<and> (\<forall>i \<in> set (over @ stay). cutoff \<le> fiModTime i) \<and>
    sum_list (map fiSize stay) \<le> maxTotalSpace \<and>
    (\<forall>a \<in> set over. \<forall>b \<in> set stay. fiModTime a \<le> fiModTime b) \<and>
    (over \<noteq> [] \<longrightarrow> maxTotalSpace < fiSize (last over) + sum_list (map fiSize stay))"
proof -
  let ?c = "candidates busy es"
  let ?exp = "filter (\<lambda>i. fiModTime i < cutoff) ?c"
  let ?kept = "filter (\<lambda>i. \<not> fiModTime i < cutoff) ?c"
  have sums: "sum_list (map fiSize xs) = sum_mset (image_mset fiSize (mset xs))" for xs
    by (simp add: sum_mset_sum_list flip: mset_map)
  have "sum_list (map fiSize ?kept) = sum_list (map fiSize (sortfn ?kept))"
    unfolding sums sorts(1) ..
  from drop_over_split [OF this] obtain ds rs where d: "sortfn ?kept = ds @ rs"
    "drop_over (sum_list (map fiSize ?kept)) (sortfn ?kept) = map fiName ds"
    "sum_list (map fiSize rs) \<le> maxTotalSpace"
    "ds \<noteq> [] \<longrightarrow> maxTotalSpace < fiSize (last ds) + sum_list (map fiSize rs)"
    by blast
  have gone: "gone = map fiName ?exp @ map fiName ds"
    using run d(2) by (simp add: enforceRetention_def Let_def retention_scan_eq cutoff [symmetric])
  have ms: "mset (ds @ rs) = mset ?kept" using sorts(1) [of ?kept] d(1) by simp
  then have st: "set (ds @ rs) = set ?kept" by (rule mset_eq_setD)
  have "mset (?exp @ ds @ rs) = mset ?exp + mset ?kept" using ms by simp
  also have "\<dots> = mset ?c" unfolding mset_filter by (rule multiset_partition [symmetric])
  finally have "mset (?exp @ ds @ rs) = mset ?c" .
  moreover have "\<forall>a \<in> set ds. \<forall>b \<in> set rs. fiModTime a \<le> fiModTime b"
    using sorts(2) [of ?kept] d(1) by (auto simp: sorted_wrt_append)
  moreover have "\<forall>i \<in> set (ds @ rs). cutoff \<le> fiModTime i" using st by (auto simp: not_less)
  ultimately show ?thesis
    using gone d(3,4) by (intro exI [of _ ?exp] exI [of _ ds] exI [of _ rs]) auto
qed

definition ex_file :: "string \<Rightarrow> 64 word \<Rightarrow> int \<Rightarrow> dir_entry" where
  "ex_file name secs len =
     \<lparr>deName = name, deIsDir = False, deInfo = Some \<lparr>fiName = name, fiModTime = Time secs 0, fiSize = len\<rparr>\<rparr>"

definition ex_dir :: "dir_entry list" where
  "ex_dir = [ex_file ''a.cast.gz'' 10 5, ex_file ''b.cast.gz'' 63000000000 1073741824, ex_file ''c.cast.gz'' 63000000001 7]"

lemma ex_dir_names:
  "has_suffix ''a.cast.gz'' castSuffix" "has_suffix ''b.cast.gz'' castSuffix" "has_suffix ''c.cast.gz'' castSuffix"
  by (simp_all add: has_suffix_def castSuffix_def)

lemma ex_dir_times:
  "Time 10 0 < Time (63000000002 - maxAgeSeconds) 0"
  "\<not> Time 63000000000 0 < Time (63000000002 - maxAgeSeconds) 0"
  "\<not> Time 63000000001 0 < Time (63000000002 - maxAgeSeconds) 0"
  "Time 63000000000 0 \<le> Time 63000000001 0"
  by (simp_all add: less_gotime_def less_eq_gotime_def time_before_def maxAgeSeconds_def)

lemma ex_retention:
  "enforceRetention (sort_key fiModTime) (\<lambda>_. False) (Time 63000000002 0) (DirEntries ex_dir) =
     Some [''a.cast.gz'', ''b.cast.gz'']"
  by (simp add: enforceRetention_def ex_dir_def ex_file_def ex_dir_names ex_dir_times
      time_before_less maxTotalSpace_def)

theorem retention_sound_witness:
  "\<exists>expired over stay. [''a.cast.gz'', ''b.cast.gz''] = map fiName expired @ map fiName over \<and>
     mset (expired @ over @ stay) = mset (candidates (\<lambda>_. False) ex_dir) \<and>
     (\<forall>i \<in> set expired. fiModTime i < Time (63000000002 - maxAgeSeconds) 0) \<and>
     (\<forall>i \<in> set (over @ stay). Time (63000000002 - maxAgeSeconds) 0 \<le> fiModTime i) \<and>
     sum_list (map fiSize stay) \<le> maxTotalSpace \<and>
     (\<forall>a \<in> set over. \<forall>b \<in> set stay. fiModTime a \<le> fiModTime b) \<and>
     (over \<noteq> [] \<longrightarrow> maxTotalSpace < fiSize (last over) + sum_list (map fiSize stay))"
proof -
  have "sorted_wrt (\<lambda>a b. fiModTime a \<le> fiModTime b) (sort_key fiModTime xs)" for xs
    by (rule sorted_map [THEN iffD1]) (rule sorted_sort_key)
  from retention_sound [of "sort_key fiModTime", OF mset_sort this refl ex_retention] show ?thesis
    unfolding gotime.sel .
qed

end
