(* ===== verification/Session.thy ===== *)
theory Session
  imports Forward Recording_Files
begin

text \<open>
  One session channel, \<^verbatim>\<open>internal/sshd/session.go\<close> with \<^verbatim>\<open>agent.go\<close> and the signal table of
  \<^verbatim>\<open>signal.go\<close>: the requests a client sends before and while its command runs. Every effect
  outside the daemon, and every answer to the client, is an entry of the session's trace. What
  the ssh package decoded from a payload is an argument, \<^const>\<open>None\<close> when that failed.
\<close>

section \<open>State\<close>

datatype effect =
    Replied bool
  | PtyOpened string | PtyClosed string
  | WinsizeSet "16 word" "16 word"
  | AgentOpened string
  | SinkOpened string string string | SinkClosed
  | RecorderOpened rec_options | RecordedResize int int | RecordedExit int | RecorderClosed
  | SignalSent nat nat | Killed nat
  | WroteOut string | WroteErr string
  | ExitStatus "32 word" | ExitSignal string
  | ChannelClosed

record session =
  sessConn :: conn_meta
  sessPerms :: permissions
  sysUser :: account
  principal :: string
  cancelled :: bool
  sessEnv :: "string list"
  rawCmd :: string
  handled :: bool
  sessionID :: string
  agentSock :: "string option"
  ptmx :: "string option"
  rec :: "rec_options option"
  exited :: bool
  proc :: "nat option"
  wantKill :: bool
  pendingSignals :: "nat list"
  trace :: "effect list"

definition act :: "session \<Rightarrow> effect list \<Rightarrow> session" where
  "act sess es = sess\<lparr>trace := trace sess @ es\<rparr>"

definition reply :: "session \<Rightarrow> bool \<Rightarrow> session" where
  "reply sess b = act sess [Replied b]"

text \<open>
  What the operating system and the recorder answer while a request is handled: the terminal
  that was opened, whether its size could be set, the agent socket, whether recordings are also
  streamed, and the error of opening a recording.
\<close>

record os_answers =
  osPTY :: "string option"
  osWinsize :: bool
  osAgent :: "string option"
  osSink :: bool
  osRecError :: "string option"

definition sess_event :: "session \<Rightarrow> eventType \<Rightarrow> auditEvent" where
  "sess_event sess typ =
     (connEvent (sessConn sess) typ)\<lparr>evSessionID := sessionID sess, evUser := acName (sysUser sess)\<rparr>"

text \<open>
  \<^verbatim>\<open>serveSession\<close> up to the request loop. A connection without an account panics when the first
  event is built, and \<^verbatim>\<open>recoverPanic\<close> drops the channel: \<^const>\<open>None\<close>.
\<close>

definition serveSession :: "string \<Rightarrow> server \<Rightarrow> connState \<Rightarrow> (server \<times> session) option" where
  "serveSession sid s st =
     (case st_user st of None \<Rightarrow> None
      | Some a \<Rightarrow>
          let sess = \<lparr>sessConn = st_meta st, sessPerms = st_perms st, sysUser = a,
                principal = st_principal st, cancelled = False, sessEnv = [], rawCmd = '''',
                handled = False, sessionID = sid, agentSock = None, ptmx = None, rec = None,
                exited = False, proc = None, wantKill = False, pendingSignals = [], trace = []\<rparr>
          in Some (emit s (sess_event sess eventSessionStart), sess))"

section \<open>Commands and subsystems\<close>

definition forceCommand :: "session \<Rightarrow> string" where
  "forceCommand sess = map_get (Extensions (sessPerms sess)) ''force-command''"

definition webSessionKeyIDPrefix :: string where
  "webSessionKeyIDPrefix = ''nokku:web:session:''"

definition webSession :: "session \<Rightarrow> bool" where
  "webSession sess =
     has_prefix (map_get (Extensions (sessPerms sess)) ''nokku-cert-key-id'') webSessionKeyIDPrefix"

text \<open>A \<^verbatim>\<open>shell\<close> request carries no command; an \<^verbatim>\<open>exec\<close> request carries one or cannot be decoded.\<close>

datatype command_request = Shell | Exec "string option"

definition accept_command :: "server \<Rightarrow> session \<Rightarrow> string \<Rightarrow> server \<times> session \<times> bool" where
  "accept_command s sess cmd =
     (let sess1 = reply (sess\<lparr>rawCmd := cmd, handled := True\<rparr>) True in
      (emit s ((sess_event sess1 eventCommand)\<lparr>evCommand := cmd\<rparr>), sess1, True))"

definition handleCommand ::
    "server \<Rightarrow> session \<Rightarrow> command_request \<Rightarrow> server \<times> session \<times> bool"
where
  "handleCommand s sess req =
     (if handled sess then (s, reply sess False, False)
      else if forceCommand sess \<noteq> '''' then accept_command s sess (forceCommand sess)
      else case req of Shell \<Rightarrow> accept_command s sess (rawCmd sess)
      | Exec None \<Rightarrow> (s, reply sess False, False)
      | Exec (Some c) \<Rightarrow> accept_command s sess c)"

definition acceptSubsystem ::
    "server \<Rightarrow> session \<Rightarrow> string option \<Rightarrow> server \<times> session \<times> bool"
where
  "acceptSubsystem s sess name =
     (let ok = (\<not> handled sess \<and> forceCommand sess = '''' \<and> name = Some ''sftp'');
          sess1 = reply (sess\<lparr>handled := handled sess \<or> ok\<rparr>) ok
      in (if ok then emit s ((sess_event sess1 eventSubsystem)\<lparr>evCommand := ''sftp''\<rparr>) else s, sess1, ok))"

section \<open>Environment\<close>

definition maxClientEnv :: nat where "maxClientEnv = 64"

definition allowedEnv :: "string \<Rightarrow> bool" where
  "allowedEnv name =
     (name \<in> {''TERM'', ''LANG'', ''TZ'', ''TERM_PROGRAM'', ''COLORTERM'', ''NOKKU_SESSION_ID''}
      \<or> has_prefix name ''LC_'')"

fun env_value :: "string list \<Rightarrow> string \<Rightarrow> string option" where
  "env_value [] key = None"
| "env_value (e # es) key =
     (case cut_prefix e (key @ ''='') of Some v \<Rightarrow> Some v | None \<Rightarrow> env_value es key)"

fun set_env :: "string list \<Rightarrow> string \<Rightarrow> string \<Rightarrow> string list" where
  "set_env [] key val = [key @ ''='' @ val]"
| "set_env (e # es) key val =
     (if has_prefix e (key @ ''='') then (key @ ''='' @ val) # es else e # set_env es key val)"

definition envValue :: "session \<Rightarrow> string \<Rightarrow> string option" where
  "envValue sess key = env_value (sessEnv sess) key"

definition setEnv :: "session \<Rightarrow> string \<Rightarrow> string \<Rightarrow> session" where
  "setEnv sess key val = sess\<lparr>sessEnv := set_env (sessEnv sess) key val\<rparr>"

definition setClientEnv :: "session \<Rightarrow> (string \<times> string) option \<Rightarrow> session \<times> bool" where
  "setClientEnv sess payload =
     (if handled sess \<or> length (sessEnv sess) \<ge> maxClientEnv \<or> forceCommand sess \<noteq> '''' then (sess, False)
      else case payload of None \<Rightarrow> (sess, False)
      | Some (name, val) \<Rightarrow>
          if name = ''NOKKU_SESSION_ID'' \<and> \<not> webSession sess then (sess, False)
          else if \<not> allowedEnv name then (sess, False)
          else (setEnv sess name val, True))"

section \<open>Recording\<close>

text \<open>Thirty-two lower case hexadecimal digits with hyphens in the four places.\<close>

definition lower_hex :: "char \<Rightarrow> bool" where
  "lower_hex c = (c \<in> set ''0123456789abcdef'')"

definition canonicalUUID :: "string \<Rightarrow> bool" where
  "canonicalUUID s =
     (case split_on CHR ''-'' s of
        [a, b, c, d, e] \<Rightarrow>
          map length [a, b, c, d, e] = [8, 4, 4, 4, 12] \<and> list_all lower_hex (a @ b @ c @ d @ e)
      | _ \<Rightarrow> False)"

definition recordingDegraded :: "server \<Rightarrow> session \<Rightarrow> sshd_error \<Rightarrow> server" where
  "recordingDegraded s sess e = emit s ((sess_event sess eventRecordingDegraded)\<lparr>evError := Some e\<rparr>)"

definition rec_session_id :: "session \<Rightarrow> string" where
  "rec_session_id sess =
     (case envValue sess ''NOKKU_SESSION_ID'' of
        Some i \<Rightarrow> if canonicalUUID i then i else sessionID sess
      | None \<Rightarrow> sessionID sess)"

definition startRecorder ::
    "os_answers \<Rightarrow> server \<Rightarrow> session \<Rightarrow> int \<Rightarrow> int \<Rightarrow> server \<times> session"
where
  "startRecorder os s sess width height =
     (if rec sess \<noteq> None \<or> \<not> Record (srvPolicy s) then (s, sess)
      else
        let sid = rec_session_id sess; user = acName (sysUser sess);
            opts = \<lparr>optWidth = width, optHeight = height, optTitle = ''ssh-'' @ user,
              optSessionID = sid, optUser = user, optPrincipal = principal sess,
              optTerm = (case envValue sess ''TERM'' of None \<Rightarrow> '''' | Some t \<Rightarrow> t),
              optMaxSize = maxRecording s\<rparr>;
            sess1 = (if osSink os then act sess [SinkOpened sid user (principal sess)] else sess)
        in (case osRecError os of
              None \<Rightarrow> (s, act (sess1\<lparr>rec := Some opts\<rparr>) [RecorderOpened opts])
            | Some e \<Rightarrow>
                (recordingDegraded s sess1 (ErrNotRecorded e),
                 if osSink os then act sess1 [SinkClosed] else sess1)))"

section \<open>Terminals\<close>

record pty_request =
  prTerm :: string
  prWidth :: "32 word"
  prHeight :: "32 word"

definition clamp16 :: "32 word \<Rightarrow> 16 word" where
  "clamp16 w = ucast (min w 65535)"

definition ptyReq :: "os_answers \<Rightarrow> server \<Rightarrow> session \<Rightarrow> pty_request option \<Rightarrow> server \<times> session" where
  "ptyReq os s sess payload =
     (if handled sess \<or> ptmx sess \<noteq> None \<or> \<not> certExt (Some (sessPerms sess)) ''permit-pty''
      then (s, reply sess False)
      else case payload of None \<Rightarrow> (s, reply sess False)
      | Some r \<Rightarrow>
          (case osPTY os of None \<Rightarrow> (s, reply sess False)
           | Some tty \<Rightarrow>
               if \<not> osWinsize os
               then (s, reply (act sess [PtyOpened tty, PtyClosed tty]) False)
               else
                 let sess1 = act (sess\<lparr>ptmx := Some tty\<rparr>)
                       [PtyOpened tty, WinsizeSet (clamp16 (prWidth r)) (clamp16 (prHeight r))];
                     sess2 = (if prTerm r \<noteq> '''' then setEnv sess1 ''TERM'' (prTerm r) else sess1)
                 in (case startRecorder os s sess2 (uint (prWidth r)) (uint (prHeight r)) of
                       (s', sess3) \<Rightarrow> (s', reply sess3 True))))"

definition windowChange :: "os_answers \<Rightarrow> session \<Rightarrow> (32 word \<times> 32 word) option \<Rightarrow> session" where
  "windowChange os sess payload =
     reply
       (case payload of None \<Rightarrow> sess
        | Some (cols, rows) \<Rightarrow>
            if ptmx sess = None \<or> \<not> osWinsize os then sess
            else act sess ([WinsizeSet (clamp16 cols) (clamp16 rows)]
              @ (if rec sess = None then [] else [RecordedResize (uint cols) (uint rows)])))
       True"

section \<open>Agent forwarding\<close>

definition agentRequest :: "os_answers \<Rightarrow> server \<Rightarrow> session \<Rightarrow> session \<times> bool" where
  "agentRequest os s sess =
     (if handled sess then (reply sess False, False)
      else if \<not> AllowAgentForwarding (srvPolicy s)
              \<or> \<not> certExt (Some (sessPerms sess)) ''permit-agent-forwarding''
      then (reply sess False, False)
      else if agentSock sess \<noteq> None then (reply sess True, False)
      else case osAgent os of None \<Rightarrow> (reply sess False, False)
      | Some sock \<Rightarrow> (reply (act (sess\<lparr>agentSock := Some sock\<rparr>) [AgentOpened sock]) True, True))"

section \<open>Signals\<close>

text \<open>The table of RFC 4254 names with the numbers of Linux.\<close>

definition sshSignals :: "(string \<times> nat) list" where
  "sshSignals =
     [(''ABRT'', 6), (''ALRM'', 14), (''FPE'', 8), (''HUP'', 1), (''ILL'', 4), (''INT'', 2),
      (''KILL'', 9), (''PIPE'', 13), (''QUIT'', 3), (''SEGV'', 11), (''TERM'', 15),
      (''USR1'', 10), (''USR2'', 12)]"

definition signalByName :: "string \<Rightarrow> nat option" where
  "signalByName name = map_of sshSignals name"

definition signal :: "session \<Rightarrow> string option \<Rightarrow> session" where
  "signal sess payload =
     (case payload of None \<Rightarrow> reply sess False
      | Some name \<Rightarrow>
          (case signalByName name of None \<Rightarrow> reply sess False
           | Some sig \<Rightarrow>
               reply (case proc sess of
                  Some p \<Rightarrow> act sess [SignalSent p sig]
                | None \<Rightarrow> sess\<lparr>pendingSignals := pendingSignals sess @ [sig]\<rparr>) True))"

definition setProc :: "session \<Rightarrow> nat \<Rightarrow> session" where
  "setProc sess p =
     (if wantKill sess then act sess [Killed p]
      else (act (sess\<lparr>proc := Some p\<rparr>) (map (SignalSent p) (pendingSignals sess)))\<lparr>pendingSignals := []\<rparr>)"

definition killProc :: "session \<Rightarrow> session" where
  "killProc sess =
     (let sess1 = sess\<lparr>wantKill := True\<rparr> in
      case proc sess of None \<Rightarrow> sess1 | Some p \<Rightarrow> act sess1 [Killed p])"

section \<open>The request loop\<close>

datatype request =
    ReqCommand command_request
  | ReqSubsystem "string option"
  | ReqEnv "(string \<times> string) option"
  | ReqPty "pty_request option"
  | ReqAgent
  | ReqWindow "(32 word \<times> 32 word) option"
  | ReqSignal "string option"
  | ReqUnknown string

text \<open>What \<^verbatim>\<open>handleRequests\<close> starts a goroutine for.\<close>

datatype spawn = NoSpawn | SpawnRun | SpawnSFTP | SpawnAgent

definition handle_request ::
    "os_answers \<Rightarrow> server \<Rightarrow> session \<Rightarrow> request \<Rightarrow> server \<times> session \<times> spawn"
where
  "handle_request os s sess r =
     (case r of
        ReqCommand c \<Rightarrow>
          (case handleCommand s sess c of (s', sess', go) \<Rightarrow> (s', sess', if go then SpawnRun else NoSpawn))
      | ReqSubsystem n \<Rightarrow>
          (case acceptSubsystem s sess n of (s', sess', go) \<Rightarrow> (s', sess', if go then SpawnSFTP else NoSpawn))
      | ReqEnv p \<Rightarrow> (case setClientEnv sess p of (sess', ok) \<Rightarrow> (s, reply sess' ok, NoSpawn))
      | ReqPty p \<Rightarrow> (case ptyReq os s sess p of (s', sess') \<Rightarrow> (s', sess', NoSpawn))
      | ReqAgent \<Rightarrow>
          (case agentRequest os s sess of (sess', go) \<Rightarrow> (s, sess', if go then SpawnAgent else NoSpawn))
      | ReqWindow p \<Rightarrow> (s, windowChange os sess p, NoSpawn)
      | ReqSignal p \<Rightarrow> (s, signal sess p, NoSpawn)
      | ReqUnknown t \<Rightarrow> (s, reply sess False, NoSpawn))"

fun handleRequests :: "server \<Rightarrow> session \<Rightarrow> (os_answers \<times> request) list \<Rightarrow> server \<times> session \<times> spawn list" where
  "handleRequests s sess [] = (s, sess, [])"
| "handleRequests s sess ((os, r) # rs) =
     (case handle_request os s sess r of (s', sess', g) \<Rightarrow>
        (case handleRequests s' sess' rs of (s'', sess'', gs) \<Rightarrow> (s'', sess'', g # gs)))"

lemmas request_defs = handle_request_def handleCommand_def accept_command_def acceptSubsystem_def
  setClientEnv_def setEnv_def ptyReq_def startRecorder_def windowChange_def agentRequest_def
  signal_def reply_def act_def recordingDegraded_def Let_def

end
