(* ===== verification/Session_Requests.thy ===== *)
theory Session_Requests
  imports Session
begin

text \<open>
  What the requests of a client can and cannot do to its session: the force-command of a
  certificate, the environment, the id of the recording, and that a session has one command.
\<close>

section \<open>Environment lists\<close>

text \<open>The name of an entry is what stands before its first equals sign.\<close>

definition env_key :: "string \<Rightarrow> string" where
  "env_key e = takeWhile (\<lambda>c. c \<noteq> CHR ''='') e"

definition env_entry :: "(string \<Rightarrow> bool) \<Rightarrow> string \<Rightarrow> bool" where
  "env_entry P e \<longleftrightarrow> CHR ''='' \<in> set e \<and> P (env_key e)"

lemma env_key_plain: "CHR ''='' \<notin> set k \<Longrightarrow> env_key (k @ ''='' @ v) = k"
  by (auto simp: env_key_def takeWhile_append)

lemma has_env_prefix:
  assumes "CHR ''='' \<notin> set k"
  shows "has_prefix e (k @ ''='') \<longleftrightarrow> CHR ''='' \<in> set e \<and> env_key e = k"
proof
  assume "has_prefix e (k @ ''='')"
  then obtain t where "e = k @ ''='' @ t" by (auto simp: has_prefix_iff)
  with env_key_plain [OF assms] show "CHR ''='' \<in> set e \<and> env_key e = k" by simp
next
  assume a: "CHR ''='' \<in> set e \<and> env_key e = k"
  have "e = k @ dropWhile (\<lambda>c. c \<noteq> CHR ''='') e" using a by (auto simp: env_key_def)
  moreover obtain t where "dropWhile (\<lambda>c. c \<noteq> CHR ''='') e = CHR ''='' # t"
    using a by (cases "dropWhile (\<lambda>c. c \<noteq> CHR ''='') e") (auto simp: dropWhile_eq_Cons_conv dropWhile_eq_Nil_conv)
  ultimately have "e = (k @ ''='') @ t" by simp
  then show "has_prefix e (k @ ''='')" by (metis has_prefix_append)
qed

lemma set_env_entries: "e \<in> set (set_env es k v) \<Longrightarrow> e \<in> set es \<or> e = k @ ''='' @ v"
  by (induction es) (auto split: if_splits)

lemma set_env_length: "length (set_env es k v) \<le> Suc (length es)"
  by (induction es) auto

text \<open>A variable that was set reads back, and the others keep their value.\<close>

lemma env_value_set: "env_value (set_env es k v) k = Some v"
proof -
  have "cut_prefix (k @ ''='' @ v) (k @ ''='') = Some v" by (simp add: cut_prefix_Some)
  then show ?thesis by (induction es) (auto simp: cut_prefix_def)
qed

lemma env_value_set_other:
  assumes "\<And>w. \<not> has_prefix (k @ ''='' @ w) (k' @ ''='')"
  shows "env_value (set_env es k v) k' = env_value es k'"
proof (induction es)
  case Nil
  show ?case using assms [of v] by (auto simp: cut_prefix_def)
next
  case (Cons e es)
  show ?case
  proof (cases "has_prefix e (k @ ''='')")
    case True
    then obtain w where "e = k @ ''='' @ w" by (auto simp: has_prefix_iff)
    with True assms [of w] assms [of v] show ?thesis by (auto simp: cut_prefix_def)
  next
    case False
    with Cons show ?thesis by (simp split: option.splits)
  qed
qed

text \<open>An allowed name stays allowed when it is read back as the name of an entry.\<close>

lemma allowed_entry: "allowedEnv n \<Longrightarrow> env_entry allowedEnv (n @ ''='' @ v)"
proof -
  assume a: "allowedEnv n"
  have "allowedEnv (env_key (n @ ''='' @ v))"
  proof (cases "has_prefix n ''LC_''")
    case True
    then obtain t where "n = ''LC_'' @ t" by (auto simp: has_prefix_iff)
    then show ?thesis by (simp add: env_key_def allowedEnv_def)
  next
    case False
    with a have "CHR ''='' \<notin> set n" by (auto simp: allowedEnv_def)
    with a env_key_plain [of n v] show ?thesis by simp
  qed
  then show ?thesis by (simp add: env_entry_def)
qed

lemma session_id_untouched:
  assumes "allowedEnv n" "n \<noteq> ''NOKKU_SESSION_ID''"
  shows "env_value (set_env es n v) ''NOKKU_SESSION_ID'' = env_value es ''NOKKU_SESSION_ID''"
proof -
  have "\<not> has_prefix (n @ ''='' @ w) (''NOKKU_SESSION_ID'' @ ''='')" for w
    using assms by (auto simp: allowedEnv_def has_prefix_iff)
  then show ?thesis by (rule env_value_set_other)
qed

section \<open>What a request keeps\<close>

text \<open>The part of a session that is fixed by the login.\<close>

definition login_of :: "session \<Rightarrow> conn_meta \<times> permissions \<times> account \<times> string \<times> string" where
  "login_of sess = (sessConn sess, sessPerms sess, sysUser sess, principal sess, sessionID sess)"

text \<open>The part a command is started from.\<close>

definition setup_of :: "session \<Rightarrow> string list \<times> string \<times> string option \<times> string option \<times> bool" where
  "setup_of sess = (sessEnv sess, rawCmd sess, ptmx sess, agentSock sess, handled sess)"

lemma act_frame [simp]:
  "login_of (act x es) = login_of x" "setup_of (act x es) = setup_of x"
  "login_of (reply x b) = login_of x" "setup_of (reply x b) = setup_of x"
  "sessEnv (act x es) = sessEnv x" "sessEnv (reply x b) = sessEnv x"
  "rec (act x es) = rec x" "rec (reply x b) = rec x"
  "handled (act x es) = handled x" "handled (reply x b) = handled x"
  "rawCmd (act x es) = rawCmd x" "rawCmd (reply x b) = rawCmd x"
  "exited (act x es) = exited x" "exited (reply x b) = exited x"
  "proc (act x es) = proc x" "proc (reply x b) = proc x"
  "wantKill (act x es) = wantKill x" "wantKill (reply x b) = wantKill x"
  "pendingSignals (act x es) = pendingSignals x" "pendingSignals (reply x b) = pendingSignals x"
  "sessionID (act x es) = sessionID x" "sessionID (reply x b) = sessionID x"
  "ptmx (act x es) = ptmx x" "ptmx (reply x b) = ptmx x"
  "trace (act x es) = trace x @ es" "trace (reply x b) = trace x @ [Replied b]"
  by (simp_all add: act_def reply_def login_of_def setup_of_def)

lemma login_same:
  assumes "login_of x = login_of y"
  shows "forceCommand x = forceCommand y" "webSession x = webSession y" "sessionID x = sessionID y"
    "sessPerms x = sessPerms y" "sess_event x t = sess_event y t"
  using assms by (simp_all add: login_of_def forceCommand_def webSession_def sess_event_def)

lemma startRecorder_frame:
  assumes "startRecorder os s sess w h = (s', sess')"
  shows "login_of sess' = login_of sess" "setup_of sess' = setup_of sess"
    "rec sess' = rec sess \<or> (\<exists>opts. rec sess' = Some opts \<and> optSessionID opts = rec_session_id sess)"
  using assms
  by (auto simp: startRecorder_def Let_def login_of_def setup_of_def act_def split: if_splits option.splits)

lemma ptyReq_cases:
  assumes "ptyReq os s sess p = (s', sess')"
  obtains (same) "login_of sess' = login_of sess" "setup_of sess' = setup_of sess" "rec sess' = rec sess"
  | (opened) sess2 tty t where "\<not> handled sess" "ptmx sess2 = Some tty" "login_of sess2 = login_of sess"
      "handled sess2 = handled sess" "rawCmd sess2 = rawCmd sess"
      "sessEnv sess2 = sessEnv sess \<or> sessEnv sess2 = set_env (sessEnv sess) ''TERM'' t"
      "login_of sess' = login_of sess" "setup_of sess' = setup_of sess2"
      "rec sess' = rec sess \<or> (\<exists>opts. rec sess' = Some opts \<and> optSessionID opts = rec_session_id sess2)"
proof (cases "handled sess \<or> ptmx sess \<noteq> None \<or> \<not> certExt (Some (sessPerms sess)) ''permit-pty'' \<or>
    p = None \<or> osPTY os = None \<or> \<not> osWinsize os")
  case True
  then show ?thesis using assms same by (auto simp: ptyReq_def Let_def split: option.splits if_splits)
next
  case False
  then obtain r tty where r: "p = Some r" "osPTY os = Some tty" by auto
  define sess1 where "sess1 = act (sess\<lparr>ptmx := Some tty\<rparr>)
     [PtyOpened tty, WinsizeSet (clamp16 (prWidth r)) (clamp16 (prHeight r))]"
  define sess2 where "sess2 = (if prTerm r \<noteq> '''' then setEnv sess1 ''TERM'' (prTerm r) else sess1)"
  obtain s3 sess3 where st: "startRecorder os s sess2 (uint (prWidth r)) (uint (prHeight r)) = (s3, sess3)"
    by (cases "startRecorder os s sess2 (uint (prWidth r)) (uint (prHeight r))")
  have s': "sess' = reply sess3 True"
    using assms False r st by (simp add: ptyReq_def Let_def sess1_def [symmetric] sess2_def [symmetric])
  have 2: "ptmx sess2 = Some tty" "login_of sess2 = login_of sess" "rec sess2 = rec sess"
    "handled sess2 = handled sess" "rawCmd sess2 = rawCmd sess"
    "sessEnv sess2 = sessEnv sess \<or> sessEnv sess2 = set_env (sessEnv sess) ''TERM'' (prTerm r)"
    by (simp_all add: sess2_def sess1_def setEnv_def act_def login_of_def)
  show ?thesis
    by (rule opened [of sess2 tty "prTerm r"])
      (use startRecorder_frame [OF st] 2 False s' in simp_all)
qed

lemma handle_request_pty:
  "handle_request os s sess (ReqPty p) = (s', sess', g) \<Longrightarrow> ptyReq os s sess p = (s', sess') \<and> g = NoSpawn"
  by (auto simp: handle_request_def split: prod.splits)

lemma handle_request_login:
  assumes "handle_request os s sess r = (s', sess', g)"
  shows "login_of sess' = login_of sess"
proof (cases r)
  case (ReqPty p)
  with assms have "ptyReq os s sess p = (s', sess')" "g = NoSpawn"
    by (auto dest: handle_request_pty)
  then show ?thesis using assms by (cases rule: ptyReq_cases) auto
qed (use assms in \<open>auto simp: request_defs login_of_def
      split: if_splits option.splits command_request.splits prod.splits\<close>)

text \<open>Once a command was accepted nothing it is started from changes, and nothing is started again.\<close>

lemma handle_request_frozen:
  assumes "handle_request os s sess r = (s', sess', g)" "handled sess"
  shows "setup_of sess' = setup_of sess \<and> g = NoSpawn"
proof (cases r)
  case (ReqPty p)
  with assms have "ptyReq os s sess p = (s', sess')" "g = NoSpawn"
    by (auto dest: handle_request_pty)
  then show ?thesis using assms by (cases rule: ptyReq_cases) auto
qed (use assms in \<open>auto simp: request_defs setup_of_def
      split: if_splits option.splits command_request.splits prod.splits\<close>)

lemma handle_request_spawn:
  assumes "handle_request os s sess r = (s', sess', g)"
  shows "g = SpawnRun \<or> g = SpawnSFTP \<longleftrightarrow> \<not> handled sess \<and> handled sess'"
proof (cases r)
  case (ReqPty p)
  with assms have "ptyReq os s sess p = (s', sess')" "g = NoSpawn"
    by (auto dest: handle_request_pty)
  then show ?thesis by (cases rule: ptyReq_cases) (auto simp: setup_of_def)
qed (use assms in \<open>auto simp: request_defs
      split: if_splits option.splits command_request.splits prod.splits\<close>)

lemma handleRequests_login:
  assumes "handleRequests s sess rs = (s', sess', gs)"
  shows "login_of sess' = login_of sess"
  using assms
proof (induction s sess rs arbitrary: s' sess' gs rule: handleRequests.induct)
  case (2 s sess os r rs)
  then show ?case by (auto split: prod.splits dest: handle_request_login)
qed simp

lemma handleRequests_frozen:
  assumes "handleRequests s sess rs = (s', sess', gs)" "handled sess"
  shows "setup_of sess' = setup_of sess \<and> set gs \<subseteq> {NoSpawn}"
  using assms
proof (induction s sess rs arbitrary: s' sess' gs rule: handleRequests.induct)
  case (2 s sess os r rs)
  obtain s1 x1 g where h: "handle_request os s sess r = (s1, x1, g)" by (cases "handle_request os s sess r")
  with handle_request_frozen [OF h 2(3)] have fz: "setup_of x1 = setup_of sess" "g = NoSpawn" "handled x1"
    using 2(3) by (auto simp: setup_of_def)
  obtain gs' where "handleRequests s1 x1 rs = (s', sess', gs')" "gs = g # gs'"
    using 2(2) h by (auto split: prod.splits)
  with 2(1) [OF h [symmetric] refl] fz show ?case by auto
qed simp

lemma handleRequests_append:
  "handleRequests s sess (xs @ ys) =
     (case handleRequests s sess xs of (s1, x1, g1) \<Rightarrow>
        (case handleRequests s1 x1 ys of (s2, x2, g2) \<Rightarrow> (s2, x2, g1 @ g2)))"
  by (induction s sess xs rule: handleRequests.induct) (auto split: prod.splits)

lemma handleRequests_spawn:
  assumes "handleRequests s sess rs = (s', sess', gs)" "SpawnRun \<in> set gs \<or> SpawnSFTP \<in> set gs"
  shows "handled sess'"
  using assms
proof (induction s sess rs arbitrary: s' sess' gs rule: handleRequests.induct)
  case (2 s sess os r rs)
  obtain s1 x1 g where h: "handle_request os s sess r = (s1, x1, g)" by (cases "handle_request os s sess r")
  obtain gs' where gs: "handleRequests s1 x1 rs = (s', sess', gs')" "gs = g # gs'"
    using 2(2) h by (auto split: prod.splits)
  show ?case
  proof (cases "g = SpawnRun \<or> g = SpawnSFTP")
    case True
    with handle_request_spawn [OF h] have "handled x1" by simp
    with handleRequests_frozen [OF gs(1)] show ?thesis by (simp add: setup_of_def)
  next
    case False
    with 2(1) [OF h [symmetric] refl gs(1)] 2(3) gs(2) show ?thesis by auto
  qed
qed simp

text \<open>
  C22. A session runs one command at most, whatever the client sends: of its requests only the
  first shell, exec or subsystem request starts a handler, and from then on the command, the
  environment, the terminal and the agent socket it is started with stay as they were.
\<close>

theorem one_command_per_session:
  assumes "handleRequests s sess before = (s1, sess1, gs1)"
    and "handle_request os s1 sess1 r = (s2, sess2, g)" "g = SpawnRun \<or> g = SpawnSFTP"
    and "handleRequests s sess (before @ (os, r) # after) = (s', sess', gs)"
  shows "\<not> handled sess1 \<and> set gs1 \<inter> {SpawnRun, SpawnSFTP} = {} \<and>
    (\<exists>gs2. gs = gs1 @ g # gs2 \<and> set gs2 \<subseteq> {NoSpawn}) \<and> setup_of sess' = setup_of sess2"
proof -
  obtain gs2 where gs2: "handleRequests s2 sess2 after = (s', sess', gs2)" "gs = gs1 @ g # gs2"
    using assms by (auto simp: handleRequests_append split: prod.splits)
  from handle_request_spawn [OF assms(2)] assms(3) have h: "\<not> handled sess1" "handled sess2" by auto
  with handleRequests_spawn [OF assms(1)] handleRequests_frozen [OF gs2(1)] gs2(2) show ?thesis by auto
qed

section \<open>What clients cannot reach\<close>

text \<open>
  The invariant of a session under its client's requests. Its parts: only allowed variables get
  into the environment; under a force-command only \<^verbatim>\<open>TERM\<close> does, and the command is the forced
  one; a session that is not a web session has no recording id of its client's choice.
\<close>

definition client_inv :: "session \<Rightarrow> bool" where
  "client_inv sess \<longleftrightarrow>
     (\<forall>e \<in> set (sessEnv sess). env_entry allowedEnv e) \<and>
     (forceCommand sess \<noteq> '''' \<longrightarrow> (\<forall>e \<in> set (sessEnv sess). env_entry ((=) ''TERM'') e) \<and>
        rawCmd sess = (if handled sess then forceCommand sess else '''')) \<and>
     (\<not> webSession sess \<longrightarrow> env_value (sessEnv sess) ''NOKKU_SESSION_ID'' = None) \<and>
     (\<forall>opts. rec sess = Some opts \<longrightarrow> optSessionID opts = sessionID sess \<or>
        webSession sess \<and> canonicalUUID (optSessionID opts))"

lemma client_inv_same:
  assumes "client_inv sess" "login_of sess' = login_of sess" "setup_of sess' = setup_of sess"
    "rec sess' = rec sess"
  shows "client_inv sess'"
  using assms login_same [OF assms(2)] by (simp add: client_inv_def setup_of_def)

lemma rec_session_id_safe:
  assumes "\<not> webSession sess \<longrightarrow> env_value (sessEnv sess) ''NOKKU_SESSION_ID'' = None"
  shows "rec_session_id sess = sessionID sess \<or> webSession sess \<and> canonicalUUID (rec_session_id sess)"
  using assms by (auto simp: rec_session_id_def envValue_def split: option.splits)

lemma client_inv_startRecorder [inv_intro]:
  assumes "client_inv sess" "startRecorder os s sess w h = (s', sess')"
  shows "client_inv sess'"
proof -
  note fr = startRecorder_frame [OF assms(2)]
  have "rec_session_id sess = sessionID sess \<or> webSession sess \<and> canonicalUUID (rec_session_id sess)"
    using assms(1) by (intro rec_session_id_safe) (simp add: client_inv_def)
  with assms(1) fr(2,3) login_same [OF fr(1)] show ?thesis
    by (auto simp: client_inv_def setup_of_def)
qed

lemma client_inv_set_env [inv_intro]:
  assumes "client_inv sess" "allowedEnv n" "n = ''NOKKU_SESSION_ID'' \<longrightarrow> webSession sess"
    "forceCommand sess \<noteq> '''' \<longrightarrow> n = ''TERM''"
    "login_of sess' = login_of sess" "sessEnv sess' = set_env (sessEnv sess) n v"
    "rawCmd sess' = rawCmd sess" "handled sess' = handled sess" "rec sess' = rec sess"
  shows "client_inv sess'"
proof -
  have "env_entry allowedEnv e" if "e \<in> set (sessEnv sess')" for e
    using assms(1,2) set_env_entries [of e "sessEnv sess" n v] that allowed_entry
    by (auto simp: client_inv_def assms(6))
  moreover have "env_entry ((=) ''TERM'') e" if "e \<in> set (sessEnv sess')" "forceCommand sess \<noteq> ''''" for e
    using assms(1,4) set_env_entries [of e "sessEnv sess" n v] that env_key_plain [of "''TERM''" v]
    by (auto simp: client_inv_def assms(6) env_entry_def)
  moreover have "env_value (sessEnv sess') ''NOKKU_SESSION_ID'' = None" if "\<not> webSession sess"
    using that assms(1-3) session_id_untouched [of n "sessEnv sess" v] by (auto simp: client_inv_def assms(6))
  ultimately show ?thesis
    using assms(1) login_same [OF assms(5)] by (auto simp: client_inv_def assms)
qed

lemma client_inv_pty [inv_intro]:
  assumes inv: "client_inv sess" and run: "ptyReq os s sess p = (s', sess')"
  shows "client_inv sess'"
  using run
proof (cases rule: ptyReq_cases)
  case same
  with inv show ?thesis by (rule client_inv_same)
next
  case (opened sess2 tty t)
  define sess3 where "sess3 = sess2\<lparr>rec := rec sess\<rparr>"
  have 3: "login_of sess3 = login_of sess" "sessEnv sess3 = sessEnv sess2" "rec sess3 = rec sess"
    "rawCmd sess3 = rawCmd sess" "handled sess3 = handled sess"
    using opened by (simp_all add: sess3_def login_of_def)
  have id3: "rec_session_id sess3 = rec_session_id sess2"
    by (simp add: sess3_def rec_session_id_def envValue_def split: option.split)
  have inv3: "client_inv sess3"
    using opened(6)
  proof
    assume "sessEnv sess2 = sessEnv sess"
    with inv 3 login_same [OF 3(1)] show ?thesis by (simp add: client_inv_def)
  next
    assume "sessEnv sess2 = set_env (sessEnv sess) ''TERM'' t"
    then show ?thesis
      by (intro client_inv_set_env [OF inv, of "''TERM''" _ t]) (simp_all add: allowedEnv_def 3)
  qed
  then have sid: "rec_session_id sess3 = sessionID sess3 \<or> webSession sess3 \<and> canonicalUUID (rec_session_id sess3)"
    by (intro rec_session_id_safe) (simp add: client_inv_def)
  have l: "login_of sess' = login_of sess3" using opened(7) 3(1) by simp
  have eqs: "sessEnv sess' = sessEnv sess3" "rawCmd sess' = rawCmd sess3" "handled sess' = handled sess3"
    using opened(4,5,8) 3 by (simp_all add: setup_of_def)
  have r: "rec sess' = rec sess3 \<or> (\<exists>opts. rec sess' = Some opts \<and> optSessionID opts = rec_session_id sess3)"
    using opened(9) 3(3) id3 by simp
  have "optSessionID opts = sessionID sess3 \<or> webSession sess3 \<and> canonicalUUID (optSessionID opts)"
    if "rec sess' = Some opts" for opts
    using r
  proof
    assume "rec sess' = rec sess3"
    with inv3 that show ?thesis by (simp add: client_inv_def)
  qed (use sid that in auto)
  with inv3 show ?thesis unfolding client_inv_def eqs login_same [OF l] by blast
qed

lemma client_inv_env [inv_intro]:
  assumes "client_inv sess" "setClientEnv sess p = (sess', ok)"
  shows "client_inv sess'"
proof (cases "sess' = sess")
  case False
  with assms(2) obtain n v where n: "sess' = setEnv sess n v" "allowedEnv n" "forceCommand sess = ''''"
    "n = ''NOKKU_SESSION_ID'' \<longrightarrow> webSession sess"
    by (auto simp: setClientEnv_def split: if_splits option.splits)
  then show ?thesis
    by (intro client_inv_set_env [OF assms(1), of n _ v]) (simp_all add: setEnv_def login_of_def)
qed (use assms in simp)

lemma client_inv_command [inv_intro]:
  assumes "client_inv sess" "handleCommand s sess c = (s', sess', go)"
  shows "client_inv sess'"
proof -
  have f: "login_of sess' = login_of sess" "sessEnv sess' = sessEnv sess" "rec sess' = rec sess"
    "handled sess' = (handled sess \<or> go)" "go \<and> forceCommand sess \<noteq> '''' \<longrightarrow> rawCmd sess' = forceCommand sess"
    "\<not> go \<longrightarrow> rawCmd sess' = rawCmd sess" "forceCommand sess \<noteq> '''' \<longrightarrow> handled sess'"
    using assms(2)
    by (auto simp: handleCommand_def accept_command_def Let_def login_of_def reply_def act_def
        split: if_splits command_request.splits option.splits)
  with assms(1) login_same [OF f(1)] show ?thesis by (auto simp: client_inv_def)
qed

lemma client_inv_subsystem [inv_intro]:
  assumes "client_inv sess" "acceptSubsystem s sess n = (s', sess', go)"
  shows "client_inv sess'"
proof -
  have f: "login_of sess' = login_of sess" "sessEnv sess' = sessEnv sess" "rec sess' = rec sess"
    "rawCmd sess' = rawCmd sess" "handled sess' = (handled sess \<or> go)" "go \<longrightarrow> forceCommand sess = ''''"
    using assms(2)
    by (auto simp: acceptSubsystem_def Let_def login_of_def reply_def act_def split: if_splits)
  with assms(1) login_same [OF f(1)] show ?thesis by (auto simp: client_inv_def)
qed

lemma client_inv_agent [inv_intro]:
  assumes "client_inv sess" "agentRequest os s sess = (sess', go)"
  shows "client_inv sess'"
proof -
  have f: "login_of sess' = login_of sess" "sessEnv sess' = sessEnv sess" "rec sess' = rec sess"
    "rawCmd sess' = rawCmd sess" "handled sess' = handled sess"
    using assms(2) by (auto simp: agentRequest_def login_of_def reply_def act_def split: if_splits option.splits)
  with assms(1) login_same [OF f(1)] show ?thesis by (simp add: client_inv_def)
qed

lemma client_inv_request [inv_intro]:
  assumes inv: "client_inv sess" and run: "handle_request os s sess r = (s', sess', g)"
  shows "client_inv sess'"
proof -
  have keep: "client_inv (reply x b)" if "client_inv x" for x b
    using that by (rule client_inv_same) simp_all
  have win: "client_inv (windowChange os sess p)" for p
    using inv by (rule client_inv_same)
      (auto simp: windowChange_def split: option.splits prod.splits)
  have sig: "client_inv (signal sess p)" for p
    using inv by (rule client_inv_same)
      (auto simp: signal_def login_of_def setup_of_def reply_def act_def split: option.splits)
  show ?thesis
    using run inv
    by (cases r)
      (auto simp: handle_request_def win sig keep split: prod.splits
        intro: client_inv_command client_inv_subsystem client_inv_pty client_inv_agent
        dest: client_inv_env intro!: keep)
qed

lemma client_inv_requests:
  "handleRequests s sess rs = (s', sess', gs) \<Longrightarrow> client_inv sess \<Longrightarrow> client_inv sess'"
proof (induction s sess rs arbitrary: s' sess' gs rule: handleRequests.induct)
  case (2 s sess os r rs)
  then show ?case by (auto split: prod.splits dest: client_inv_request)
qed simp

lemma client_inv_fresh:
  assumes "serveSession sid s st = Some (s', sess)"
  shows "client_inv sess" "sessPerms sess = st_perms st" "sessionID sess = sid" "\<not> handled sess"
    "rawCmd sess = ''''" "rec sess = None" "exited sess = False"
  using assms by (auto simp: serveSession_def client_inv_def Let_def split: option.splits)

lemma no_sftp_under_force_command:
  assumes "handleRequests s sess rs = (s', sess', gs)" "forceCommand sess \<noteq> ''''"
  shows "SpawnSFTP \<notin> set gs"
  using assms
proof (induction s sess rs arbitrary: s' sess' gs rule: handleRequests.induct)
  case (2 s sess os r rs)
  obtain s1 x1 g where h: "handle_request os s sess r = (s1, x1, g)" by (cases "handle_request os s sess r")
  have "g \<noteq> SpawnSFTP"
    using h 2(3)
    by (cases r) (auto simp: handle_request_def acceptSubsystem_def Let_def split: prod.splits if_splits)
  moreover have "forceCommand x1 \<noteq> ''''"
    using 2(3) login_same(1) [OF handle_request_login [OF h]] by simp
  moreover obtain gs' where "handleRequests s1 x1 rs = (s', sess', gs')" "gs = g # gs'"
    using 2(2) h by (auto split: prod.splits)
  ultimately show ?case using 2(1) [OF h [symmetric] refl] by auto
qed simp

text \<open>
  C2. A certificate's force-command decides: whatever the client requests, no subsystem is
  served, the command that runs is the forced one, and of the client's variables only the
  terminal type gets in.
\<close>

theorem force_command_enforced:
  assumes "serveSession sid s st = Some (s0, sess0)"
    and "handleRequests s0 sess0 rs = (s', sess', gs)"
    and "map_get (Extensions (st_perms st)) ''force-command'' = fc" "fc \<noteq> ''''"
  shows "SpawnSFTP \<notin> set gs \<and> (SpawnRun \<in> set gs \<longrightarrow> rawCmd sess' = fc) \<and>
    (\<forall>e \<in> set (sessEnv sess'). env_key e = ''TERM'')"
proof -
  note f = client_inv_fresh [OF assms(1)]
  have fc: "forceCommand sess0 = fc" using assms(3) f(2) by (simp add: forceCommand_def)
  have fc': "forceCommand sess' = fc"
    using login_same(1) [OF handleRequests_login [OF assms(2)]] fc by simp
  have inv: "client_inv sess'" using client_inv_requests [OF assms(2) f(1)] .
  have "SpawnSFTP \<notin> set gs" using no_sftp_under_force_command [OF assms(2)] fc assms(4) by simp
  moreover have "rawCmd sess' = fc" if "SpawnRun \<in> set gs"
    using handleRequests_spawn [OF assms(2)] that inv fc' assms(4) by (auto simp: client_inv_def)
  moreover have "\<forall>e \<in> set (sessEnv sess'). env_key e = ''TERM''"
    using inv fc' assms(4) by (auto simp: client_inv_def env_entry_def)
  ultimately show ?thesis by blast
qed

text \<open>
  C23. A recording carries the id the server gave to the session, whatever variables the client
  sends. Only a web session, known by the key id its authority signed, may name another id, and
  only one in the canonical form.
\<close>

theorem recording_id_not_forged:
  assumes "serveSession sid s st = Some (s0, sess0)"
    and "handleRequests s0 sess0 rs = (s1, sess1, gs)"
    and "startRecorder os s1 sess1 w h = (s2, sess2)" "rec sess2 = Some opts"
  shows "optSessionID opts = sid \<or>
    has_prefix (map_get (Extensions (st_perms st)) ''nokku-cert-key-id'') webSessionKeyIDPrefix \<and>
    canonicalUUID (optSessionID opts)"
proof -
  note f = client_inv_fresh [OF assms(1)]
  have inv: "client_inv sess2"
    using client_inv_requests [OF assms(2) f(1)] assms(3) by (rule client_inv_startRecorder)
  have "login_of sess2 = login_of sess0"
    using startRecorder_frame(1) [OF assms(3)] handleRequests_login [OF assms(2)] by simp
  from login_same [OF this] f inv assms(4) show ?thesis
    by (auto simp: client_inv_def webSession_def)
qed

section \<open>Concrete requests\<close>

definition ex_forced :: permissions where
  "ex_forced = \<lparr>CriticalOptions = Map.empty, Extensions = [''force-command'' \<mapsto> ''backup'', ''permit-pty'' \<mapsto> ''''],
     ExtraAccount = Some ex_account\<rparr>"

definition ex_os :: os_answers where
  "ex_os = \<lparr>osPTY = Some ''/dev/pts/3'', osWinsize = True, osAgent = Some ''/tmp/auth-agent1/listener.sock'',
     osSink = False, osRecError = None\<rparr>"

definition ex_sess :: "permissions \<Rightarrow> session" where
  "ex_sess perms = \<lparr>sessConn = ex_meta, sessPerms = perms, sysUser = ex_account, principal = '''',
     cancelled = False, sessEnv = [], rawCmd = '''', handled = False, sessionID = ''s'', agentSock = None,
     ptmx = None, rec = None, exited = False, proc = None, wantKill = False, pendingSignals = [], trace = []\<rparr>"

lemma ex_serve:
  "serveSession ''s'' ex_server (newConnState ex_meta ex_forced 50) =
     Some (emit ex_server (sess_event (ex_sess ex_forced) eventSessionStart), ex_sess ex_forced)"
  by (simp add: serveSession_def newConnState_def ex_forced_def ex_sess_def Let_def map_get_def)

definition ex_requests :: "(os_answers \<times> request) list" where
  "ex_requests = [(ex_os, ReqSubsystem (Some ''sftp'')), (ex_os, ReqEnv (Some (''LANG'', ''C''))),
     (ex_os, ReqCommand (Exec (Some ''id''))), (ex_os, ReqCommand Shell)]"

definition ex_log :: server where
  "ex_log = emit ex_server (sess_event (ex_sess ex_forced) eventSessionStart)"

lemma ex_handle:
  "handleRequests ex_log (ex_sess ex_forced) ex_requests =
     (emit ex_log ((sess_event (ex_sess ex_forced) eventCommand)\<lparr>evCommand := ''backup''\<rparr>),
      (ex_sess ex_forced)\<lparr>rawCmd := ''backup'', handled := True,
        trace := [Replied False, Replied False, Replied True, Replied False]\<rparr>,
      [NoSpawn, NoSpawn, SpawnRun, NoSpawn])"
  by (simp add: ex_requests_def request_defs forceCommand_def ex_forced_def map_get_def ex_sess_def sess_event_def)

theorem force_command_enforced_witness:
  "SpawnRun \<in> set [NoSpawn, NoSpawn, SpawnRun, NoSpawn] \<and>
   rawCmd ((ex_sess ex_forced)\<lparr>rawCmd := ''backup'', handled := True,
     trace := [Replied False, Replied False, Replied True, Replied False]\<rparr>) = ''backup''"
  using force_command_enforced [OF ex_serve ex_handle [unfolded ex_log_def]]
  by (simp add: newConnState_def ex_forced_def map_get_def)

theorem one_command_per_session_witness:
  "\<exists>gs2. [NoSpawn, NoSpawn, SpawnRun, NoSpawn] = [NoSpawn, NoSpawn] @ SpawnRun # gs2 \<and> set gs2 \<subseteq> {NoSpawn}"
proof -
  have before: "handleRequests ex_log (ex_sess ex_forced) [(ex_os, ReqSubsystem (Some ''sftp'')), (ex_os, ReqEnv (Some (''LANG'', ''C'')))] =
      (ex_log, (ex_sess ex_forced)\<lparr>trace := [Replied False, Replied False]\<rparr>, [NoSpawn, NoSpawn])"
    by (simp add: request_defs forceCommand_def ex_forced_def map_get_def ex_sess_def)
  have cmd: "handle_request ex_os ex_log ((ex_sess ex_forced)\<lparr>trace := [Replied False, Replied False]\<rparr>)
      (ReqCommand (Exec (Some ''id''))) =
    (emit ex_log ((sess_event (ex_sess ex_forced) eventCommand)\<lparr>evCommand := ''backup''\<rparr>),
     (ex_sess ex_forced)\<lparr>rawCmd := ''backup'', handled := True,
       trace := [Replied False, Replied False, Replied True]\<rparr>, SpawnRun)"
    by (simp add: request_defs forceCommand_def ex_forced_def map_get_def ex_sess_def sess_event_def)
  have all: "ex_requests = [(ex_os, ReqSubsystem (Some ''sftp'')), (ex_os, ReqEnv (Some (''LANG'', ''C'')))] @ (ex_os, ReqCommand (Exec (Some ''id''))) # [(ex_os, ReqCommand Shell)]"
    by (simp add: ex_requests_def)
  from one_command_per_session [OF before cmd _ ex_handle [unfolded all]] show ?thesis by blast
qed

definition ex_opts :: rec_options where
  "ex_opts = \<lparr>optWidth = 80, optHeight = 24, optTitle = ''ssh-bob'', optSessionID = ''s'',
     optUser = ''bob'', optPrincipal = '''', optTerm = '''', optMaxSize = 0\<rparr>"

lemma ex_record:
  "startRecorder ex_os ex_log (ex_sess ex_forced) 80 24 =
     (ex_log, (ex_sess ex_forced)\<lparr>rec := Some ex_opts, trace := [RecorderOpened ex_opts]\<rparr>)"
proof -
  have "Record (srvPolicy ex_log)" "maxRecording ex_log = 0"
    by (simp_all add: ex_log_def ex_server_def DefaultPolicy_def)
  then show ?thesis
    by (simp add: startRecorder_def Let_def ex_sess_def ex_os_def rec_session_id_def envValue_def
        ex_account_def act_def ex_opts_def)
qed

theorem recording_id_not_forged_witness:
  "rec ((ex_sess ex_forced)\<lparr>rec := Some ex_opts, trace := [RecorderOpened ex_opts]\<rparr>) = Some ex_opts \<and>
   (optSessionID ex_opts = ''s'' \<or>
    has_prefix (map_get (Extensions ex_forced) ''nokku-cert-key-id'') webSessionKeyIDPrefix \<and>
    canonicalUUID (optSessionID ex_opts))"
  using recording_id_not_forged [OF ex_serve, of "[]" ex_log "ex_sess ex_forced" "[]" ex_os 80 24, OF _ ex_record]
  by (simp add: ex_log_def newConnState_def)

end
