(* ===== verification/Session_Command.thy ===== *)
theory Session_Command
  imports Session_Requests
begin

text \<open>
  The command of a session: how it is built and started (\<^verbatim>\<open>shellCmd\<close>, \<^verbatim>\<open>startInHome\<close>,
  \<^verbatim>\<open>runPTY\<close>, \<^verbatim>\<open>runPlain\<close> of \<^verbatim>\<open>session.go\<close>, \<^verbatim>\<open>runSFTP\<close> of \<^verbatim>\<open>sftp.go\<close>), its environment
  (\<^verbatim>\<open>buildEnv\<close>), how its end is reported (\<^verbatim>\<open>exitProcess\<close>, \<^verbatim>\<open>finish\<close>, \<^verbatim>\<open>processSignal\<close>), and the
  agent socket it may use (\<^verbatim>\<open>newAgentSock\<close> of \<^verbatim>\<open>agent.go\<close>).
\<close>

section \<open>Environment of the command\<close>

definition splitHostPort :: "string \<Rightarrow> string \<times> string" where
  "splitHostPort a = (case split_host_port a of None \<Rightarrow> (a, '''') | Some hp \<Rightarrow> hp)"

definition buildEnv :: "(string \<rightharpoonup> string) \<Rightarrow> session \<Rightarrow> string list" where
  "buildEnv os_env sess =
     (let (rHost, rPort) = splitHostPort (cm_remote (sessConn sess));
          (lHost, lPort) = splitHostPort (cm_local (sessConn sess))
      in cmdEnv os_env (sysUser sess) @ sessEnv sess
         @ [''SSH_CLIENT='' @ rHost @ '' '' @ rPort @ '' '' @ lPort,
            ''SSH_CONNECTION='' @ rHost @ '' '' @ rPort @ '' '' @ lHost @ '' '' @ lPort]
         @ (case ptmx sess of None \<Rightarrow> []
            | Some tty \<Rightarrow> (''SSH_TTY='' @ tty)
                # (case envValue sess ''TERM'' of None \<Rightarrow> [''TERM=xterm-256color''] | Some _ \<Rightarrow> []))
         @ (case agentSock sess of None \<Rightarrow> [] | Some sock \<Rightarrow> [''SSH_AUTH_SOCK='' @ sock]))"

text \<open>What the child reads: \<^verbatim>\<open>exec.Cmd\<close> passes the last entry of every name on.\<close>

definition getenv :: "string list \<Rightarrow> string \<Rightarrow> string option" where
  "getenv env k =
     map_option (\<lambda>e. tl (dropWhile (\<lambda>c. c \<noteq> CHR ''='') e)) (find (env_entry ((=) k)) (rev env))"

section \<open>Starting\<close>

record exec_cmd =
  cmPath :: string
  cmArgs :: "string list"
  cmDir :: string
  cmEnviron :: "string list"
  cmAttr :: sys_proc_attr

definition shellCmd ::
    "(string \<rightharpoonup> string) \<Rightarrow> nat \<Rightarrow> (string \<Rightarrow> string option) \<Rightarrow> session \<Rightarrow> sshd_error + exec_cmd"
where
  "shellCmd os_env euid id_G sess =
     (let shell = acShell (sysUser sess) in
      case sysProcAttr euid id_G (sysUser sess) of Inl e \<Rightarrow> Inl e
      | Inr attr \<Rightarrow>
          Inr \<lparr>cmPath = shell,
               cmArgs = (if rawCmd sess \<noteq> '''' then [path_base shell, ''-c'', rawCmd sess]
                         else [''-'' @ path_base shell]),
               cmDir = acHome (sysUser sess), cmEnviron = buildEnv os_env sess, cmAttr = attr\<rparr>)"

text \<open>
  A failed start is a system error, whose text is never empty, or some other error. The two
  starts and the two calls of \<^verbatim>\<open>shellCmd\<close> may be answered differently.
\<close>

datatype start_error = Errno string | OtherError

definition to_upper1 :: "string \<Rightarrow> string" where
  "to_upper1 s = map (\<lambda>c. if 97 \<le> byte c \<and> byte c \<le> 122 then char_of (byte c - 32) else c) s"

definition startInHome ::
    "string \<Rightarrow> sshd_error + exec_cmd \<Rightarrow> sshd_error + exec_cmd \<Rightarrow> (exec_cmd \<Rightarrow> start_error + nat)
     \<Rightarrow> (exec_cmd \<Rightarrow> start_error + nat) \<Rightarrow> (exec_cmd \<times> nat \<times> string) option"
where
  "startInHome home cmd1 cmd2 start1 start2 =
     (case cmd1 of Inl _ \<Rightarrow> None
      | Inr c \<Rightarrow>
          (case start1 c of Inr pid \<Rightarrow> Some (c, pid, '''')
           | Inl OtherError \<Rightarrow> None
           | Inl (Errno reason) \<Rightarrow>
               (case cmd2 of Inl _ \<Rightarrow> None
                | Inr c2 \<Rightarrow>
                    let retry = c2\<lparr>cmDir := ''/''\<rparr> in
                    (case start2 retry of Inl _ \<Rightarrow> None
                     | Inr pid \<Rightarrow>
                         Some (retry, pid, ''Could not chdir to home directory '' @ home @ '': ''
                           @ to_upper1 (take 1 reason) @ drop 1 reason)))))"

text \<open>\<^verbatim>\<open>runPTY\<close> makes the terminal the controlling one before each start.\<close>

definition with_ctty :: "session \<Rightarrow> exec_cmd \<Rightarrow> exec_cmd" where
  "with_ctty sess c = (if ptmx sess = None then c else c\<lparr>cmAttr := (cmAttr c)\<lparr>Setctty := True\<rparr>\<rparr>)"

definition run_start ::
    "(string \<rightharpoonup> string) \<Rightarrow> nat \<Rightarrow> (string \<Rightarrow> string option) \<Rightarrow> (string \<Rightarrow> string option)
     \<Rightarrow> (exec_cmd \<Rightarrow> start_error + nat) \<Rightarrow> (exec_cmd \<Rightarrow> start_error + nat) \<Rightarrow> session
     \<Rightarrow> (exec_cmd \<times> nat \<times> string) option"
where
  "run_start os_env euid ids1 ids2 start1 start2 sess =
     map_option (\<lambda>(c, r). (with_ctty sess c, r))
       (startInHome (acHome (sysUser sess)) (shellCmd os_env euid ids1 sess) (shellCmd os_env euid ids2 sess)
         (\<lambda>c. start1 (with_ctty sess c)) (\<lambda>c. start2 (with_ctty sess c)))"

text \<open>\<open>exe\<close> is the path of the daemon's binary, \<^const>\<open>None\<close> when it cannot be found.\<close>

definition sftpServerCmd :: "string option \<Rightarrow> string \<Rightarrow> exec_cmd option" where
  "sftpServerCmd exe home =
     map_option (\<lambda>bin. \<lparr>cmPath = bin, cmArgs = [bin, ''sftp-server'', home], cmDir = '''',
        cmEnviron = [''HOME='' @ home], cmAttr = \<lparr>Setsid = False, Setctty = False, Credential = None\<rparr>\<rparr>) exe"

definition sftp_start ::
    "string option \<Rightarrow> nat \<Rightarrow> (string \<Rightarrow> string option) \<Rightarrow> (exec_cmd \<Rightarrow> start_error + nat) \<Rightarrow> session
     \<Rightarrow> (exec_cmd \<times> nat) option"
where
  "sftp_start exe euid ids start sess =
     (let home = acHome (sysUser sess) in
      case sftpServerCmd exe home of None \<Rightarrow> None
      | Some c \<Rightarrow>
          (case sysProcAttr euid ids (sysUser sess) of Inl _ \<Rightarrow> None
           | Inr attr \<Rightarrow>
               let c' = c\<lparr>cmAttr := attr, cmDir := home\<rparr> in
               (case start c' of Inl _ \<Rightarrow> None | Inr pid \<Rightarrow> Some (c', pid))))"

section \<open>Ending\<close>

definition exitCodeToU32 :: "int \<Rightarrow> 32 word" where
  "exitCodeToU32 code = (if code < 0 \<or> code > 255 then 1 else of_int code)"

text \<open>\<^verbatim>\<open>os.ProcessState\<close>: the process exited, was ended by a signal, or neither.\<close>

datatype proc_state = Exited int | Signaled nat | OtherState

definition processSignal :: "proc_state option \<Rightarrow> string \<times> int \<times> bool" where
  "processSignal st =
     (case st of Some (Signaled n) \<Rightarrow>
        (case find (\<lambda>e. snd e = n) sshSignals of Some (name, _) \<Rightarrow> (name, 128 + int n, True)
         | None \<Rightarrow> ('''', 128 + int n, True))
      | _ \<Rightarrow> ('''', 0, False))"

definition finish :: "server \<Rightarrow> session \<Rightarrow> int \<Rightarrow> effect \<Rightarrow> server \<times> session" where
  "finish s sess code send =
     (if exited sess then (s, sess)
      else
        let sess1 = act (sess\<lparr>exited := True, cancelled := True\<rparr>)
              (if rec sess = None then [] else [RecordedExit code, RecorderClosed])
        in (emit s ((sess_event sess1 eventSessionEnd)\<lparr>evExitCode := code\<rparr>), act sess1 [send, ChannelClosed]))"

definition exit_session :: "server \<Rightarrow> session \<Rightarrow> int \<Rightarrow> server \<times> session" where
  "exit_session s sess code = finish s sess code (ExitStatus (exitCodeToU32 code))"

definition exitSignal :: "server \<Rightarrow> session \<Rightarrow> string \<Rightarrow> int \<Rightarrow> server \<times> session" where
  "exitSignal s sess name code = finish s sess code (ExitSignal name)"

definition exitProcess :: "server \<Rightarrow> session \<Rightarrow> proc_state option \<Rightarrow> server \<times> session" where
  "exitProcess s sess st =
     (case processSignal st of (name, code, signaled) \<Rightarrow>
        if \<not> signaled then exit_session s sess (case st of Some (Exited c) \<Rightarrow> c | _ \<Rightarrow> 1)
        else if name = '''' then exit_session s sess code
        else exitSignal s sess name code)"

definition recordingFull :: "server \<Rightarrow> session \<Rightarrow> server \<times> session" where
  "recordingFull s sess =
     (let s1 = recordingDegraded s sess ErrSizeLimit;
          notice = ''nokkud: the recording of this session is full, closing it'';
          sess1 = act sess [if ptmx sess \<noteq> None then WroteOut ([CHR 0x0D, CHR 0x0A] @ notice @ [CHR 0x0D, CHR 0x0A])
                            else WroteErr (notice @ [CHR 0x0A])]
      in exit_session s1 sess1 1)"

section \<open>The agent socket\<close>

datatype sock_op =
    MkdirTemp string | ListenUnix string | Lchown string "32 word" "32 word" | Chmod600 string
  | ChownDir string "32 word" "32 word" | CloseListener | RemoveAll string

record sock_answers =
  saDir :: "string option"
  saListen :: bool
  saLchown :: bool
  saChmod :: bool
  saChown :: bool

text \<open>
  The operations \<^verbatim>\<open>newAgentSock\<close> performs and the socket it returns. An error return first sets
  the named result \<^verbatim>\<open>ln\<close> to nil, so the deferred function never finds a listener to close and
  only removes the directory.
\<close>

definition newAgentSock :: "nat \<Rightarrow> sock_answers \<Rightarrow> account \<Rightarrow> sock_op list \<times> string option" where
  "newAgentSock euid ans a =
     (case saDir ans of None \<Rightarrow> ([], None)
      | Some dir \<Rightarrow>
          let sock = path_join [dir, ''listener.sock'']; undo = [RemoveAll dir] in
          if \<not> saListen ans then ([MkdirTemp dir] @ undo, None)
          else if euid \<noteq> 0 then ([MkdirTemp dir, ListenUnix sock], Some sock)
          else if \<not> saLchown ans then ([MkdirTemp dir, ListenUnix sock] @ undo, None)
          else if \<not> saChmod ans
          then ([MkdirTemp dir, ListenUnix sock, Lchown sock (acUID a) (acGID a)] @ undo, None)
          else if \<not> saChown ans
          then ([MkdirTemp dir, ListenUnix sock, Lchown sock (acUID a) (acGID a), Chmod600 sock] @ undo, None)
          else ([MkdirTemp dir, ListenUnix sock, Lchown sock (acUID a) (acGID a), Chmod600 sock,
                 ChownDir dir (acUID a) (acGID a)], Some sock))"

text \<open>One round of \<^verbatim>\<open>serveAgent\<close>, on whether \<^verbatim>\<open>Accept\<close> gave a connection.\<close>

definition serveAgent :: "connState \<Rightarrow> bool \<Rightarrow> (connState \<times> bool) option" where
  "serveAgent st accepted =
     (if \<not> accepted then None
      else case acquireChannel st of None \<Rightarrow> Some (st, False) | Some st' \<Rightarrow> Some (st', True))"

section \<open>Privileges\<close>

lemma sysProcAttr_root:
  assumes "sysProcAttr 0 ids a = Inr attr"
  shows "\<exists>cr. Credential attr = Some cr \<and> crUid cr = acUID a \<and> crGid cr = acGID a \<and> groupIDs ids a = Inr (crGroups cr)"
  using assms by (auto simp: sysProcAttr_def split: sum.splits)

lemma startInHome_Some:
  assumes "startInHome home cmd1 cmd2 start1 start2 = Some (c, pid, notice)"
  obtains "cmd1 = Inr c" "start1 c = Inr pid" "notice = ''''"
  | c2 where "cmd2 = Inr c2" "c = c2\<lparr>cmDir := ''/''\<rparr>" "start2 c = Inr pid"
  using assms by (auto simp: startInHome_def Let_def split: sum.splits start_error.splits)

lemma shellCmd_Inr:
  assumes "shellCmd os_env euid ids sess = Inr c"
  shows "sysProcAttr euid ids (sysUser sess) = Inr (cmAttr c)" "cmEnviron c = buildEnv os_env sess"
    "cmPath c = acShell (sysUser sess)" "cmDir c = acHome (sysUser sess)"
    "rawCmd sess \<noteq> '''' \<longrightarrow> cmArgs c = [path_base (acShell (sysUser sess)), ''-c'', rawCmd sess]"
  using assms by (auto simp: shellCmd_def Let_def split: sum.splits)

text \<open>
  C3. A daemon that runs as root starts every command as the user: the child gets the user id,
  the group and the groups of the account, in its home or in the root directory, whichever of
  the ways to start a command is taken. When the groups cannot be read nothing is started.
\<close>

theorem command_runs_as_user:
  assumes "run_start os_env 0 ids1 ids2 start1 start2 sess = Some (c, pid, notice) \<or>
    sftp_start exe 0 ids1 start1 sess = Some (c, pid)"
  shows "\<exists>cr. Credential (cmAttr c) = Some cr \<and> crUid cr = acUID (sysUser sess) \<and>
    crGid cr = acGID (sysUser sess) \<and>
    Inr (crGroups cr) \<in> {groupIDs ids1 (sysUser sess), groupIDs ids2 (sysUser sess)} \<and>
    cmDir c \<in> {acHome (sysUser sess), ''/''}"
  using assms
proof
  assume "run_start os_env 0 ids1 ids2 start1 start2 sess = Some (c, pid, notice)"
  then obtain c0 where c: "c = with_ctty sess c0" and
    "startInHome (acHome (sysUser sess)) (shellCmd os_env 0 ids1 sess) (shellCmd os_env 0 ids2 sess)
       (\<lambda>c. start1 (with_ctty sess c)) (\<lambda>c. start2 (with_ctty sess c)) = Some (c0, pid, notice)"
    by (auto simp: run_start_def)
  from this(2) obtain ids c1 where "ids = ids1 \<or> ids = ids2" "shellCmd os_env 0 ids sess = Inr c1"
    "c0 = c1 \<or> c0 = c1\<lparr>cmDir := ''/''\<rparr>"
    by (rule startInHome_Some) blast+
  moreover note sh = shellCmd_Inr [OF this(2)]
  moreover from sysProcAttr_root [OF sh(1)] obtain cr where "Credential (cmAttr c1) = Some cr"
    "crUid cr = acUID (sysUser sess)" "crGid cr = acGID (sysUser sess)" "groupIDs ids (sysUser sess) = Inr (crGroups cr)"
    by blast
  ultimately show ?thesis
    unfolding c with_ctty_def by (intro exI [of _ cr]) auto
next
  assume "sftp_start exe 0 ids1 start1 sess = Some (c, pid)"
  then obtain attr where "sysProcAttr 0 ids1 (sysUser sess) = Inr attr" "cmAttr c = attr"
    "cmDir c = acHome (sysUser sess)"
    by (auto simp: sftp_start_def Let_def split: option.splits sum.splits)
  moreover from sysProcAttr_root [OF this(1)] obtain cr where "Credential attr = Some cr"
    "crUid cr = acUID (sysUser sess)" "crGid cr = acGID (sysUser sess)" "groupIDs ids1 (sysUser sess) = Inr (crGroups cr)"
    by blast
  ultimately show ?thesis by (intro exI [of _ cr]) auto
qed

section \<open>What a client can do to the environment\<close>

lemma find_append: "find P (xs @ ys) = (case find P xs of None \<Rightarrow> find P ys | Some x \<Rightarrow> Some x)"
  by (induction xs) auto

lemma find_none: "(\<And>x. x \<in> set xs \<Longrightarrow> \<not> P x) \<Longrightarrow> find P xs = None"
  by (simp add: find_None_iff)

lemma getenv_skip:
  assumes "\<And>e. e \<in> set bs \<Longrightarrow> \<not> env_entry ((=) k) e"
  shows "getenv (as @ bs @ cs) k = getenv (as @ cs) k"
proof -
  have "find (env_entry ((=) k)) (rev bs) = None" using assms by (intro find_none) simp
  then show ?thesis by (simp add: getenv_def find_append split: option.splits)
qed

lemma buildEnv_parts:
  "\<exists>as bs cs. \<forall>env. \<exists>ts. set ts \<subseteq> {''TERM=xterm-256color''} \<and>
     buildEnv os_env (sess\<lparr>sessEnv := env\<rparr>) = as @ env @ bs @ ts @ cs"
proof -
  define ts where "ts env = (if ptmx sess = None \<or> env_value env ''TERM'' \<noteq> None then []
      else [''TERM=xterm-256color''])" for env
  define bs where "bs =
      (let (rHost, rPort) = splitHostPort (cm_remote (sessConn sess));
           (lHost, lPort) = splitHostPort (cm_local (sessConn sess))
       in [''SSH_CLIENT='' @ rHost @ '' '' @ rPort @ '' '' @ lPort,
           ''SSH_CONNECTION='' @ rHost @ '' '' @ rPort @ '' '' @ lHost @ '' '' @ lPort])
      @ (case ptmx sess of None \<Rightarrow> [] | Some tty \<Rightarrow> [''SSH_TTY='' @ tty])"
  have "buildEnv os_env (sess\<lparr>sessEnv := env\<rparr>) =
      cmdEnv os_env (sysUser sess) @ env @ bs @ ts env @
        (case agentSock sess of None \<Rightarrow> [] | Some sock \<Rightarrow> [''SSH_AUTH_SOCK='' @ sock])" for env
    by (auto simp: buildEnv_def bs_def ts_def envValue_def Let_def split: prod.splits option.splits)
  moreover have "set (ts env) \<subseteq> {''TERM=xterm-256color''}" for env by (simp add: ts_def)
  ultimately show ?thesis by blast
qed

text \<open>
  C4. What the child sees of every variable outside the allow-list does not depend on what the
  client sent: the path, the home, the shell, the loader's and the shell's start-up variables
  and everything under \<^verbatim>\<open>SSH_\<close> are as in a session that received no variable at all.
\<close>

theorem child_environment_not_spoofed:
  assumes "serveSession sid s st = Some (s0, sess0)"
    and "handleRequests s0 sess0 rs = (s1, sess, gs)" and "\<not> allowedEnv k"
  shows "getenv (buildEnv os_env sess) k = getenv (buildEnv os_env (sess\<lparr>sessEnv := []\<rparr>)) k"
proof -
  have inv: "client_inv sess"
    using client_inv_requests [OF assms(2) client_inv_fresh(1) [OF assms(1)]] .
  have skip: "\<not> env_entry ((=) k) e" if "env_entry allowedEnv e" for e
    using that assms(3) by (auto simp: env_entry_def)
  have default_term: "\<not> env_entry ((=) k) ''TERM=xterm-256color''"
    by (rule skip) (simp add: env_entry_def env_key_def allowedEnv_def)
  obtain as bs cs where parts: "\<And>env. \<exists>ts. set ts \<subseteq> {''TERM=xterm-256color''} \<and>
     buildEnv os_env (sess\<lparr>sessEnv := env\<rparr>) = as @ env @ bs @ ts @ cs"
    using buildEnv_parts [of os_env sess] by blast
  have "getenv (buildEnv os_env (sess\<lparr>sessEnv := env\<rparr>)) k = getenv ((as @ bs) @ cs) k"
    if "\<And>e. e \<in> set env \<Longrightarrow> \<not> env_entry ((=) k) e" for env
  proof -
    from parts [of env] obtain ts where ts: "set ts \<subseteq> {''TERM=xterm-256color''}"
      "buildEnv os_env (sess\<lparr>sessEnv := env\<rparr>) = as @ env @ bs @ ts @ cs" by blast
    have "getenv (as @ env @ bs @ ts @ cs) k = getenv ((as @ bs) @ ts @ cs) k"
      using getenv_skip [of env k as "bs @ ts @ cs"] that by simp
    also have "\<dots> = getenv ((as @ bs) @ cs) k"
      using ts(1) default_term by (intro getenv_skip) auto
    finally show ?thesis unfolding ts(2) .
  qed
  note same = this
  have "getenv (buildEnv os_env (sess\<lparr>sessEnv := sessEnv sess\<rparr>)) k = getenv ((as @ bs) @ cs) k"
    by (rule same) (use inv skip in \<open>auto simp: client_inv_def\<close>)
  moreover have "getenv (buildEnv os_env (sess\<lparr>sessEnv := []\<rparr>)) k = getenv ((as @ bs) @ cs) k"
    by (rule same) simp
  ultimately show ?thesis by simp
qed

section \<open>How the end is reported\<close>

lemma finish_exited: "exited sess \<Longrightarrow> finish s sess code send = (s, sess)"
  by (simp add: finish_def)

lemma finish_first:
  assumes "\<not> exited sess" "finish s sess code send = (s', sess')"
  shows "exited sess'" "cancelled sess'" "login_of sess' = login_of sess" "setup_of sess' = setup_of sess"
    "rec sess' = rec sess" "proc sess' = proc sess" "wantKill sess' = wantKill sess"
    "pendingSignals sess' = pendingSignals sess"
    "\<exists>es. trace sess' = trace sess @ es @ [send, ChannelClosed] \<and> set es \<subseteq> {RecordedExit code, RecorderClosed}"
    "s' = emit s ((sess_event sess eventSessionEnd)\<lparr>evExitCode := code\<rparr>)"
  using assms
  by (auto simp: finish_def Let_def act_def login_of_def setup_of_def sess_event_def split: if_splits)

lemma sshSignals_find:
  assumes "find (\<lambda>e. snd e = n) sshSignals = Some (name, m)"
  shows "signalByName name = Some n" "name \<noteq> ''''"
proof -
  have mem: "(name, n) \<in> set sshSignals"
    using assms by (auto simp: find_Some_iff) (metis nth_mem snd_conv)
  moreover have "distinct (map fst sshSignals)" by (simp add: sshSignals_def)
  ultimately show "signalByName name = Some n"
    unfolding signalByName_def by (intro map_of_is_SomeI)
  show "name \<noteq> ''''" using mem by (auto simp: sshSignals_def)
qed

text \<open>How a command's end is handed to \<^const>\<open>finish\<close>: the code for the log and the message for the client.\<close>

lemma exitProcess_plain:
  assumes "\<nexists>n. st = Some (Signaled n)" "exitProcess s sess st = (s', sess')"
  defines "code \<equiv> (case st of Some (Exited c) \<Rightarrow> c | _ \<Rightarrow> 1)"
  shows "finish s sess code (ExitStatus (if 0 \<le> code \<and> code \<le> 255 then of_int code else 1)) = (s', sess')"
  using assms
  by (auto simp: exitProcess_def processSignal_def exit_session_def exitCodeToU32_def split: option.splits proc_state.splits)

lemma exitProcess_signaled:
  assumes "exitProcess s sess (Some (Signaled n)) = (s', sess')"
  obtains (named) name where "finish s sess (128 + int n) (ExitSignal name) = (s', sess')"
      "signalByName name = Some n" "n \<in> snd ` set sshSignals"
    | (unnamed) "finish s sess (128 + int n) (ExitStatus (if 128 + n \<le> 255 then of_nat (128 + n) else 1)) = (s', sess')"
      "n \<notin> snd ` set sshSignals"
proof (cases "find (\<lambda>e. snd e = n) sshSignals")
  case None
  then have "finish s sess (128 + int n) (ExitStatus (exitCodeToU32 (128 + int n))) = (s', sess')"
    using assms by (simp add: exitProcess_def processSignal_def exit_session_def)
  moreover have "exitCodeToU32 (128 + int n) = (if 128 + n \<le> 255 then of_nat (128 + n) else 1)"
    by (simp add: exitCodeToU32_def)
  moreover have "n \<notin> snd ` set sshSignals" using None by (force simp: find_None_iff)
  ultimately show thesis using unnamed by simp
next
  case (Some e)
  obtain name m where e: "e = (name, m)" by (cases e)
  note sig = sshSignals_find [OF Some [unfolded e]]
  have "finish s sess (128 + int n) (ExitSignal name) = (s', sess')"
    using assms Some e sig(2) by (simp add: exitProcess_def processSignal_def exitSignal_def)
  moreover have "n \<in> snd ` set sshSignals"
    using sig(1) by (force simp: signalByName_def dest: map_of_SomeD)
  ultimately show thesis using sig(1) named by blast
qed

text \<open>
  C36. The end of a command reaches the client and the audit log once, and as it was: the exit
  status of a command that exited, with anything outside 0 to 255 as 1, the name of the signal
  that ended it, or the status 128 and its number for a signal without a name (1 when that is over 255), and 1
  when nothing is known of the end; later reports change nothing.
\<close>

theorem exit_reported_once:
  assumes "\<not> exited sess" "exitProcess s sess st = (s', sess')"
  shows "(\<exists>es msg ev. trace sess' = trace sess @ es @ [msg, ChannelClosed] \<and>
      set es \<subseteq> {RecordedExit (evExitCode ev), RecorderClosed} \<and>
      auditLog s' = auditLog s @ [ev] \<and> evType ev = eventSessionEnd \<and> evSessionID ev = sessionID sess \<and>
      (\<forall>c. st = Some (Exited c) \<longrightarrow> evExitCode ev = c \<and>
         msg = ExitStatus (if 0 \<le> c \<and> c \<le> 255 then of_int c else 1)) \<and>
      (\<forall>n. st = Some (Signaled n) \<longrightarrow> evExitCode ev = 128 + int n \<and>
         (\<forall>name. msg = ExitSignal name \<longrightarrow> signalByName name = Some n) \<and>
         (n \<in> snd ` set sshSignals \<longleftrightarrow> (\<exists>name. msg = ExitSignal name)) \<and>
         (n \<notin> snd ` set sshSignals \<longrightarrow> msg = ExitStatus (if 128 + n \<le> 255 then of_nat (128 + n) else 1))) \<and>
      (st = None \<or> st = Some OtherState \<longrightarrow> evExitCode ev = 1 \<and> msg = ExitStatus 1)) \<and>
    (\<forall>st2. exitProcess s' sess' st2 = (s', sess'))"
proof -
  obtain code send where f: "finish s sess code send = (s', sess')"
    and ex: "\<forall>c. st = Some (Exited c) \<longrightarrow> code = c \<and> send = ExitStatus (if 0 \<le> c \<and> c \<le> 255 then of_int c else 1)"
    and sg: "\<forall>n. st = Some (Signaled n) \<longrightarrow> code = 128 + int n \<and>
         (\<forall>name. send = ExitSignal name \<longrightarrow> signalByName name = Some n) \<and>
         (n \<in> snd ` set sshSignals \<longleftrightarrow> (\<exists>name. send = ExitSignal name)) \<and>
         (n \<notin> snd ` set sshSignals \<longrightarrow> send = ExitStatus (if 128 + n \<le> 255 then of_nat (128 + n) else 1))"
    and other: "st = None \<or> st = Some OtherState \<longrightarrow> code = 1 \<and> send = ExitStatus 1"
  proof (cases "\<exists>n. st = Some (Signaled n)")
    case False
    with exitProcess_plain [OF False assms(2)] show thesis by (intro that) (auto split: proc_state.splits)
  next
    case True
    then obtain n where n: "st = Some (Signaled n)" by blast
    from assms(2) [unfolded n] show thesis
    proof (cases rule: exitProcess_signaled)
      case (named name)
      with n show thesis by (intro that [OF named(1)]) simp_all
    next
      case unnamed
      with n show thesis by (intro that [OF unnamed(1)]) simp_all
    qed
  qed
  note fin = finish_first [OF assms(1) f]
  from fin(9) obtain es where es: "trace sess' = trace sess @ es @ [send, ChannelClosed]"
    "set es \<subseteq> {RecordedExit code, RecorderClosed}" by blast
  define ev where "ev = (sess_event sess eventSessionEnd)\<lparr>evExitCode := code\<rparr>"
  have ev: "evExitCode ev = code" "evType ev = eventSessionEnd" "evSessionID ev = sessionID sess"
    "auditLog s' = auditLog s @ [ev]"
    by (simp_all add: ev_def fin(10) sess_event_def)
  have again: "exitProcess s' sess' st2 = (s', sess')" for st2
    using fin(1) by (auto simp: exitProcess_def exit_session_def exitSignal_def finish_exited split: prod.splits)
  show ?thesis
    by (rule conjI, rule exI [of _ es], rule exI [of _ send], rule exI [of _ ev], intro conjI)
      (simp_all only: ev es again simp_thms, fact ex, fact sg, fact other)
qed

section \<open>The agent socket\<close>

text \<open>
  The agent socket of a root daemon is handed to the user before its directory is, so the
  directory is still out of the user's reach while the socket changes hands; a socket that could
  not be handed over is removed with its directory.
\<close>

theorem agent_socket_handed_over:
  assumes "newAgentSock 0 ans a = (ops, r)" "saDir ans = Some dir"
  shows "(case r of
      Some sock \<Rightarrow> sock = path_join [dir, ''listener.sock''] \<and>
        ops = [MkdirTemp dir, ListenUnix sock, Lchown sock (acUID a) (acGID a), Chmod600 sock,
               ChownDir dir (acUID a) (acGID a)]
    | None \<Rightarrow> ops \<noteq> [] \<and> last ops = RemoveAll dir \<and> ChownDir dir (acUID a) (acGID a) \<notin> set ops)"
  using assms by (auto simp: newAgentSock_def Let_def split: if_splits)

text \<open>
  The listener of a socket that could not be handed over is not closed, although the deferred
  function is written to close it.
\<close>

theorem agent_listener_left_open:
  "\<exists>ans ops. newAgentSock 0 ans a = (ops, None) \<and> (\<exists>sock. ListenUnix sock \<in> set ops) \<and> CloseListener \<notin> set ops"
proof -
  let ?ans = "\<lparr>saDir = Some ''/tmp/auth-agent1'', saListen = True, saLchown = False, saChmod = True, saChown = True\<rparr>"
  have "newAgentSock 0 ?ans a = ([MkdirTemp ''/tmp/auth-agent1'',
      ListenUnix (path_join [''/tmp/auth-agent1'', ''listener.sock'']), RemoveAll ''/tmp/auth-agent1''], None)"
    by (simp add: newAgentSock_def)
  then show ?thesis by (intro exI conjI) auto
qed

section \<open>Concrete commands\<close>

definition ex_ids :: "string \<Rightarrow> string option" where
  "ex_ids u = Some ''7''"

definition ex_start :: "exec_cmd \<Rightarrow> start_error + nat" where
  "ex_start c = (if cmDir c = ''/'' then Inr 41 else Inl (Errno ''no such file''))"

lemma ex_groups: "groupIDs ex_ids ex_account = Inr [7]"
proof -
  have "fields_of ''7'' = [''7'']" by (simp add: fields_of_def go_spaces_def)
  then show ?thesis
    by (simp add: groupIDs_def ex_ids_def parse_uint_def is_digit_def digits_val_def digit_val_def)
qed

definition ex_cmd :: exec_cmd where
  "ex_cmd = \<lparr>cmPath = ''/bin/sh'', cmArgs = [''-sh''], cmDir = ''/'',
     cmEnviron = buildEnv Map.empty (ex_sess ex_forced),
     cmAttr = \<lparr>Setsid = True, Setctty = False, Credential = Some \<lparr>crUid = 1000, crGid = 1000, crGroups = [7]\<rparr>\<rparr>\<rparr>"

lemma ex_run:
  "run_start Map.empty 0 ex_ids ex_ids ex_start ex_start (ex_sess ex_forced) =
     Some (ex_cmd, 41, ''Could not chdir to home directory /home/bob: '' @ to_upper1 ''n'' @ ''o such file'')"
proof -
  have u: "sysUser (ex_sess ex_forced) = ex_account" "ptmx (ex_sess ex_forced) = None" "rawCmd (ex_sess ex_forced) = ''''"
    by (simp_all add: ex_sess_def)
  have base: "path_base ''/bin/sh'' = ''sh''" by (simp add: path_base_def)
  show ?thesis
    by (simp add: run_start_def startInHome_def shellCmd_def Let_def sysProcAttr_def u ex_groups with_ctty_def
        ex_start_def ex_cmd_def)
      (simp add: ex_account_def base)
qed

theorem command_runs_as_user_witness:
  "\<exists>cr. Credential (cmAttr ex_cmd) = Some cr \<and> crUid cr = acUID (sysUser (ex_sess ex_forced)) \<and>
     crGid cr = acGID (sysUser (ex_sess ex_forced)) \<and>
     Inr (crGroups cr) \<in> {groupIDs ex_ids (sysUser (ex_sess ex_forced)), groupIDs ex_ids (sysUser (ex_sess ex_forced))} \<and>
     cmDir ex_cmd \<in> {acHome (sysUser (ex_sess ex_forced)), ''/''}"
  by (rule command_runs_as_user [OF disjI1 [OF ex_run]])

definition ex_open :: permissions where
  "ex_open = \<lparr>CriticalOptions = Map.empty, Extensions = Map.empty, ExtraAccount = Some ex_account\<rparr>"

definition ex_env_sess :: session where
  "ex_env_sess = (ex_sess ex_open)\<lparr>sessEnv := [''LANG=C''], trace := [Replied False, Replied True]\<rparr>"

lemma ex_serve_env:
  "serveSession ''s'' ex_server (newConnState ex_meta ex_open 50) =
     Some (emit ex_server (sess_event (ex_sess ex_open) eventSessionStart), ex_sess ex_open)"
  by (simp add: serveSession_def newConnState_def ex_open_def ex_sess_def Let_def map_get_def)

lemma ex_handle_env:
  "handleRequests s (ex_sess ex_open)
     [(ex_os, ReqEnv (Some (''PATH'', ''/evil''))), (ex_os, ReqEnv (Some (''LANG'', ''C'')))] =
   (s, ex_env_sess, [NoSpawn, NoSpawn])"
  by (simp add: request_defs forceCommand_def ex_open_def map_get_def ex_sess_def ex_env_sess_def
      maxClientEnv_def allowedEnv_def)

theorem child_environment_not_spoofed_witness:
  "\<not> allowedEnv ''PATH'' \<and>
   getenv (buildEnv Map.empty ex_env_sess) ''PATH'' =
     getenv (buildEnv Map.empty (ex_env_sess\<lparr>sessEnv := []\<rparr>)) ''PATH''"
  using child_environment_not_spoofed [OF ex_serve_env ex_handle_env, of "''PATH''" Map.empty]
  by (simp add: allowedEnv_def)

theorem exit_reported_once_witness:
  "\<not> exited (ex_sess ex_forced) \<and>
   (\<exists>s' sess'. exitProcess ex_server (ex_sess ex_forced) (Some (Signaled 9)) = (s', sess') \<and>
     exitProcess s' sess' None = (s', sess'))"
proof -
  obtain s' sess' where r: "exitProcess ex_server (ex_sess ex_forced) (Some (Signaled 9)) = (s', sess')"
    by (cases "exitProcess ex_server (ex_sess ex_forced) (Some (Signaled 9))")
  have "\<not> exited (ex_sess ex_forced)" by (simp add: ex_sess_def)
  with conjunct2 [OF exit_reported_once [OF this r], THEN spec, of None] r show ?thesis by blast
qed

theorem agent_socket_handed_over_witness:
  "saDir \<lparr>saDir = Some ''/d'', saListen = True, saLchown = True, saChmod = True, saChown = False\<rparr> = Some ''/d'' \<and>
   ChownDir ''/d'' (acUID ex_account) (acGID ex_account) \<notin>
     set (fst (newAgentSock 0 \<lparr>saDir = Some ''/d'', saListen = True, saLchown = True, saChmod = True, saChown = False\<rparr> ex_account))"
  using agent_socket_handed_over
    [of "\<lparr>saDir = Some ''/d'', saListen = True, saLchown = True, saChmod = True, saChown = False\<rparr>" ex_account]
  by (auto simp: newAgentSock_def Let_def)

end
