(* ===== verification/Session_Steps.thy ===== *)
theory Session_Steps
  imports Session_Command
begin

text \<open>
  The goroutines of one session: the request loop (\<^verbatim>\<open>handleRequests\<close>), the handler that starts
  the command and reports its end (\<^verbatim>\<open>run\<close>, \<^verbatim>\<open>runSFTP\<close>), and the recorder, which ends the session
  when the recording is full. A step is one atomic part of one of them; the mutexes of the
  session make them atomic. Between the start of a process and \<^verbatim>\<open>setProc\<close> anything may happen.
  \<^verbatim>\<open>finish\<close> is one step: whoever sets its flag does the rest of it alone. A panic that the handler
  recovers from is no step.
\<close>

datatype handler_state = NotStarted | Starting spawn | Launched nat | Running nat | Finished

text \<open>\<open>accepted\<close> lists the signals whose requests were answered with success, in order.\<close>

record sess_sys =
  sySrv :: server
  sySess :: session
  handler :: handler_state
  reqsOpen :: bool
  accepted :: "nat list"

definition request_signal :: "request \<Rightarrow> nat list" where
  "request_signal r =
     (case r of ReqSignal (Some n) \<Rightarrow> (case signalByName n of None \<Rightarrow> [] | Some k \<Rightarrow> [k]) | _ \<Rightarrow> [])"

text \<open>What \<^verbatim>\<open>handleRequests\<close> releases when no command was ever accepted.\<close>

definition release_unused :: "session \<Rightarrow> session" where
  "release_unused sess =
     act sess ((case ptmx sess of None \<Rightarrow> [] | Some tty \<Rightarrow> [PtyClosed tty])
       @ (if rec sess = None then [] else [RecorderClosed]))"

inductive sess_step :: "sess_sys \<Rightarrow> sess_sys \<Rightarrow> bool" where
  request: "reqsOpen y \<Longrightarrow> handle_request os (sySrv y) (sySess y) r = (s', sess', g) \<Longrightarrow>
    sess_step y (y\<lparr>sySrv := s', sySess := sess', accepted := accepted y @ request_signal r,
      handler := if g = SpawnRun \<or> g = SpawnSFTP then Starting g else handler y\<rparr>)"
| record_plain: "handler y = Starting SpawnRun \<Longrightarrow> ptmx (sySess y) = None \<Longrightarrow>
    startRecorder os (sySrv y) (sySess y) 80 24 = (s', sess') \<Longrightarrow>
    sess_step y (y\<lparr>sySrv := s', sySess := sess'\<rparr>)"
| start_failed: "handler y = Starting g \<Longrightarrow> exit_session (sySrv y) (sySess y) 1 = (s', sess') \<Longrightarrow>
    sess_step y (y\<lparr>sySrv := s', sySess := sess', handler := Finished\<rparr>)"
| started: "handler y = Starting g \<Longrightarrow>
    g = SpawnRun \<and> run_start os_env euid ids1 ids2 start1 start2 (sySess y) = Some (c, p, notice) \<or>
    g = SpawnSFTP \<and> sftp_start exe euid ids1 start1 (sySess y) = Some (c, p) \<Longrightarrow>
    sess_step y (y\<lparr>handler := Launched p\<rparr>)"
| registered: "handler y = Launched p \<Longrightarrow>
    sess_step y (y\<lparr>sySess := setProc (sySess y) p, handler := Running p\<rparr>)"
| ended: "handler y = Running p \<Longrightarrow> exitProcess (sySrv y) (sySess y) st = (s', sess') \<Longrightarrow>
    sess_step y (y\<lparr>sySrv := s', sySess := sess', handler := Finished\<rparr>)"
| recording_full: "rec (sySess y) \<noteq> None \<Longrightarrow> recordingFull (sySrv y) (sySess y) = (s', sess') \<Longrightarrow>
    sess_step y (y\<lparr>sySrv := s', sySess := sess'\<rparr>)"
| hangup: "reqsOpen y \<Longrightarrow>
    sess_step y (y\<lparr>sySess := killProc ((sySess y)\<lparr>cancelled := True\<rparr>), reqsOpen := False\<rparr>)"
| release: "\<not> reqsOpen y \<Longrightarrow> handler y = NotStarted \<Longrightarrow>
    sess_step y (y\<lparr>sySess := release_unused (sySess y)\<rparr>)"
| others: "auditLog s' = auditLog (sySrv y) @ evs \<Longrightarrow>
    (\<And>ev. ev \<in> set evs \<Longrightarrow> evSessionID ev \<noteq> sessionID (sySess y)) \<Longrightarrow>
    sess_step y (y\<lparr>sySrv := s'\<rparr>)"

definition sess_init :: "sess_sys \<Rightarrow> bool" where
  "sess_init y \<longleftrightarrow> (\<exists>sid s st. serveSession sid s st = Some (sySrv y, sySess y) \<and>
     (\<forall>ev \<in> set (auditLog s). evSessionID ev \<noteq> sid)) \<and>
     handler y = NotStarted \<and> reqsOpen y \<and> accepted y = []"

section \<open>The invariant\<close>

fun is_exit_msg :: "effect \<Rightarrow> bool" where
  "is_exit_msg (ExitStatus _) = True"
| "is_exit_msg (ExitSignal _) = True"
| "is_exit_msg _ = False"

definition is_end :: "string \<Rightarrow> auditEvent \<Rightarrow> bool" where
  "is_end sid ev \<longleftrightarrow> evType ev = eventSessionEnd \<and> evSessionID ev = sid"

fun sent_signals :: "effect list \<Rightarrow> (nat \<times> nat) list" where
  "sent_signals [] = []"
| "sent_signals (SignalSent p k # es) = (p, k) # sent_signals es"
| "sent_signals (e # es) = sent_signals es"

definition end_inv :: "sess_sys \<Rightarrow> bool" where
  "end_inv y \<longleftrightarrow>
     length (filter (is_end (sessionID (sySess y))) (auditLog (sySrv y))) = (if exited (sySess y) then 1 else 0) \<and>
     length (filter is_exit_msg (trace (sySess y))) = (if exited (sySess y) then 1 else 0) \<and>
     (handler y = Finished \<longrightarrow> exited (sySess y)) \<and>
     (handler y = NotStarted \<longleftrightarrow> \<not> handled (sySess y))"

definition signal_inv :: "sess_sys \<Rightarrow> bool" where
  "signal_inv y \<longleftrightarrow>
     (wantKill (sySess y) \<longleftrightarrow> \<not> reqsOpen y) \<and>
     (case proc (sySess y) of
        None \<Rightarrow> sent_signals (trace (sySess y)) = [] \<and> pendingSignals (sySess y) = accepted y \<and>
          (\<forall>p. handler y = Running p \<longrightarrow> wantKill (sySess y) \<and> Killed p \<in> set (trace (sySess y)))
      | Some q \<Rightarrow> sent_signals (trace (sySess y)) = map (Pair q) (accepted y) \<and>
          pendingSignals (sySess y) = [] \<and> (handler y = Running q \<or> handler y = Finished) \<and>
          (wantKill (sySess y) \<longrightarrow> Killed q \<in> set (trace (sySess y))))"

section \<open>Effects of the operations\<close>

lemma sent_signals_append [simp]: "sent_signals (xs @ ys) = sent_signals xs @ sent_signals ys"
  by (induction xs rule: sent_signals.induct) auto

lemma sent_signals_map [simp]: "sent_signals (map (SignalSent p) ks) = map (Pair p) ks"
  by (induction ks) auto

text \<open>An operation that ends nothing: what it appends to the log and to the trace.\<close>

definition quiet :: "server \<Rightarrow> session \<Rightarrow> server \<Rightarrow> session \<Rightarrow> bool" where
  "quiet s sess s' sess' \<longleftrightarrow>
     sessionID sess' = sessionID sess \<and> exited sess' = exited sess \<and> wantKill sess' = wantKill sess \<and>
     proc sess' = proc sess \<and> pendingSignals sess' = pendingSignals sess \<and>
     (\<exists>evs. auditLog s' = auditLog s @ evs \<and> (\<forall>ev \<in> set evs. evType ev \<noteq> eventSessionEnd)) \<and>
     (\<exists>es. trace sess' = trace sess @ es \<and> filter is_exit_msg es = [] \<and> sent_signals es = [])"

lemma quietI:
  assumes "sessionID sess' = sessionID sess" "exited sess' = exited sess" "wantKill sess' = wantKill sess"
    "proc sess' = proc sess" "pendingSignals sess' = pendingSignals sess"
    "auditLog s' = auditLog s @ evs" "\<And>ev. ev \<in> set evs \<Longrightarrow> evType ev \<noteq> eventSessionEnd"
    "trace sess' = trace sess @ es" "filter is_exit_msg es = []" "sent_signals es = []"
  shows "quiet s sess s' sess'"
  unfolding quiet_def using assms by blast

lemma quietE:
  assumes "quiet s sess s' sess'"
  obtains evs es where "sessionID sess' = sessionID sess" "exited sess' = exited sess"
    "wantKill sess' = wantKill sess" "proc sess' = proc sess" "pendingSignals sess' = pendingSignals sess"
    "auditLog s' = auditLog s @ evs" "\<forall>ev \<in> set evs. evType ev \<noteq> eventSessionEnd"
    "trace sess' = trace sess @ es" "filter is_exit_msg es = []" "sent_signals es = []"
  using assms unfolding quiet_def by blast

lemma quiet_trans:
  assumes "quiet s x s1 x1" "quiet s1 x1 s2 x2"
  shows "quiet s x s2 x2"
proof -
  from assms(1) obtain evs es where 1: "sessionID x1 = sessionID x" "exited x1 = exited x"
    "wantKill x1 = wantKill x" "proc x1 = proc x" "pendingSignals x1 = pendingSignals x"
    "auditLog s1 = auditLog s @ evs" "\<forall>ev \<in> set evs. evType ev \<noteq> eventSessionEnd"
    "trace x1 = trace x @ es" "filter is_exit_msg es = []" "sent_signals es = []" by (rule quietE)
  from assms(2) obtain evs' es' where 2: "sessionID x2 = sessionID x1" "exited x2 = exited x1"
    "wantKill x2 = wantKill x1" "proc x2 = proc x1" "pendingSignals x2 = pendingSignals x1"
    "auditLog s2 = auditLog s1 @ evs'" "\<forall>ev \<in> set evs'. evType ev \<noteq> eventSessionEnd"
    "trace x2 = trace x1 @ es'" "filter is_exit_msg es' = []" "sent_signals es' = []" by (rule quietE)
  show ?thesis
    by (rule quietI [of _ _ _ _ "evs @ evs'" "es @ es'"]) (use 1 2 in auto)
qed

lemma quiet_same:
  assumes "sessionID sess' = sessionID sess" "exited sess' = exited sess" "wantKill sess' = wantKill sess"
    "proc sess' = proc sess" "pendingSignals sess' = pendingSignals sess"
    "trace sess' = trace sess @ es" "filter is_exit_msg es = []" "sent_signals es = []"
  shows "quiet s sess s sess'"
  by (rule quietI [of _ _ _ _ "[]" es]) (use assms in auto)

lemma quiet_reply: "quiet s sess s' sess' \<Longrightarrow> quiet s sess s' (reply sess' b)"
  by (erule quiet_trans) (rule quiet_same [of _ _ "[Replied b]"], simp_all)

lemma quiet_refl: "quiet s sess s sess"
  by (rule quiet_same [of _ _ "[]"]) simp_all

lemma quiet_emit:
  assumes "quiet s sess s' sess'" "evType ev \<noteq> eventSessionEnd"
  shows "quiet s sess (emit s' ev) sess'"
  by (rule quiet_trans [OF assms(1)], rule quietI [of _ _ _ _ "[ev]" "[]"]) (use assms(2) in auto)

lemma quiet_act:
  assumes "quiet s sess s' sess'" "filter is_exit_msg es = []" "sent_signals es = []"
  shows "quiet s sess s' (act sess' es)"
  by (rule quiet_trans [OF assms(1)], rule quiet_same [of _ _ es]) (use assms(2,3) in simp_all)

lemma quiet_fields:
  assumes "quiet s sess s' sess'"
    "sessionID x = sessionID sess'" "exited x = exited sess'" "wantKill x = wantKill sess'"
    "proc x = proc sess'" "pendingSignals x = pendingSignals sess'" "trace x = trace sess'"
  shows "quiet s sess s' x"
  by (rule quiet_trans [OF assms(1)], rule quiet_same [of _ _ "[]"]) (use assms(2-) in simp_all)

lemma sess_event_type [simp]: "evType (sess_event sess t) = t" "evSessionID (sess_event sess t) = sessionID sess"
  by (simp_all add: sess_event_def)

lemma quiet_updates:
  assumes "quiet s sess s' x"
  shows "quiet s sess s' (x\<lparr>rec := r\<rparr>)" "quiet s sess s' (x\<lparr>sessEnv := env\<rparr>)" "quiet s sess s' (x\<lparr>ptmx := t\<rparr>)"
    "quiet s sess s' (x\<lparr>agentSock := a\<rparr>)" "quiet s sess s' (x\<lparr>rawCmd := c\<rparr>)"
    "quiet s sess s' (x\<lparr>handled := b\<rparr>)"
  by (rule quiet_fields [OF assms], simp_all)+

lemmas quiet_intros = quiet_reply quiet_act quiet_emit quiet_refl quiet_updates

lemma quiet_startRecorder:
  assumes "startRecorder os s sess w h = (s', sess')"
  shows "quiet s sess s' sess'"
  using assms
  by (auto simp: startRecorder_def recordingDegraded_def Let_def split: if_splits option.splits
      intro!: quiet_intros)

lemma quiet_pty:
  assumes "ptyReq os s sess p = (s', sess')"
  shows "quiet s sess s' sess'"
proof -
  have rec: "quiet s sess s1 x1" if "startRecorder os s x w h = (s1, x1)" "quiet s sess s x" for x w h s1 x1
    using that(2) quiet_startRecorder [OF that(1)] by (rule quiet_trans)
  show ?thesis
    using assms
    by (auto simp: ptyReq_def setEnv_def Let_def split: if_splits option.splits prod.splits
        intro!: quiet_intros elim!: rec)
qed

lemma quiet_request:
  assumes "handle_request os s sess r = (s', sess', g)" "request_signal r = []"
  shows "quiet s sess s' sess'"
proof (cases r)
  case (ReqPty p)
  then have "ptyReq os s sess p = (s', sess')" using assms(1) by (auto dest: handle_request_pty)
  then show ?thesis by (rule quiet_pty)
next
  case (ReqSignal p)
  then have "sess' = reply sess False" "s' = s"
    using assms by (auto simp: handle_request_def signal_def request_signal_def split: option.splits)
  then show ?thesis by (auto intro: quiet_reply quiet_refl)
qed (use assms(1) in \<open>auto simp: handle_request_def setClientEnv_def setEnv_def handleCommand_def
        accept_command_def acceptSubsystem_def agentRequest_def windowChange_def Let_def
        split: if_splits option.splits command_request.splits prod.splits intro!: quiet_intros\<close>)

lemma request_signal_effect:
  assumes "handle_request os s sess r = (s', sess', g)" "request_signal r = [k]"
  shows "s' = s" "g = NoSpawn"
    "sess' = reply (case proc sess of Some p \<Rightarrow> act sess [SignalSent p k]
       | None \<Rightarrow> sess\<lparr>pendingSignals := pendingSignals sess @ [k]\<rparr>) True"
  using assms
  by (auto simp: handle_request_def signal_def request_signal_def split: request.splits option.splits)

lemma request_signal_cases: "request_signal r = [] \<or> (\<exists>k. request_signal r = [k])"
  by (auto simp: request_signal_def split: request.splits option.splits)

section \<open>The end of a session\<close>

definition counts_ok :: "server \<Rightarrow> session \<Rightarrow> bool" where
  "counts_ok s sess \<longleftrightarrow>
     length (filter (is_end (sessionID sess)) (auditLog s)) = (if exited sess then 1 else 0) \<and>
     length (filter is_exit_msg (trace sess)) = (if exited sess then 1 else 0)"

lemma counts_quiet:
  assumes "counts_ok s sess" "quiet s sess s' sess'"
  shows "counts_ok s' sess'"
proof -
  from assms(2) obtain evs es where q: "sessionID sess' = sessionID sess" "exited sess' = exited sess"
    "auditLog s' = auditLog s @ evs" "\<forall>ev \<in> set evs. evType ev \<noteq> eventSessionEnd"
    "trace sess' = trace sess @ es" "filter is_exit_msg es = []" by (rule quietE)
  have "filter (is_end (sessionID sess)) evs = []" using q(4) by (auto simp: filter_empty_conv is_end_def)
  then show ?thesis using assms(1) q by (simp add: counts_ok_def)
qed

lemma counts_finish:
  assumes "counts_ok s sess" "finish s sess code send = (s', sess')" "is_exit_msg send"
  shows "counts_ok s' sess' \<and> exited sess'"
proof (cases "exited sess")
  case True
  with assms show ?thesis by (simp add: finish_exited)
next
  case False
  note f = finish_first [OF False assms(2)]
  obtain es where es: "trace sess' = trace sess @ es @ [send, ChannelClosed]" "set es \<subseteq> {RecordedExit code, RecorderClosed}"
    using f(9) by blast
  have "filter is_exit_msg es = []" using es(2) by (auto simp: filter_empty_conv)
  moreover note login_same(3) [OF f(3)]
  moreover have "is_end (sessionID sess) ((sess_event sess eventSessionEnd)\<lparr>evExitCode := code\<rparr>)" by (simp add: is_end_def)
  ultimately show ?thesis using assms(1,3) False f(1,10) es(1) by (simp add: counts_ok_def)
qed

text \<open>The four ways a session is ended all go through \<^const>\<open>finish\<close>.\<close>

lemma exit_session_finish: "\<exists>send. exit_session s sess code = finish s sess code send \<and> is_exit_msg send"
  by (auto simp: exit_session_def)

lemma exitProcess_finish: "\<exists>code send. exitProcess s sess st = finish s sess code send \<and> is_exit_msg send"
  by (cases "processSignal st")
    (simp add: exitProcess_def exit_session_def exitSignal_def, metis is_exit_msg.simps(1,2))

lemma recordingFull_finish:
  "\<exists>s1 x1 send. quiet s sess s1 x1 \<and> recordingFull s sess = finish s1 x1 1 send \<and> is_exit_msg send \<and>
     setup_of x1 = setup_of sess"
proof -
  let ?notice = "''nokkud: the recording of this session is full, closing it''"
  let ?x = "act sess [if ptmx sess \<noteq> None then WroteOut ([CHR 0x0D, CHR 0x0A] @ ?notice @ [CHR 0x0D, CHR 0x0A])
       else WroteErr (?notice @ [CHR 0x0A])]"
  have "quiet s sess (recordingDegraded s sess ErrSizeLimit) ?x"
    by (auto simp: recordingDegraded_def intro!: quiet_intros)
  then show ?thesis
    by (intro exI [of _ "recordingDegraded s sess ErrSizeLimit"] exI [of _ ?x]
        exI [of _ "ExitStatus (exitCodeToU32 1)"]) (simp add: recordingFull_def exit_session_def Let_def)
qed

lemma end_inv_alt:
  "end_inv y \<longleftrightarrow> counts_ok (sySrv y) (sySess y) \<and> (handler y = Finished \<longrightarrow> exited (sySess y)) \<and>
     (handler y = NotStarted \<longleftrightarrow> \<not> handled (sySess y))"
  by (auto simp: end_inv_def counts_ok_def)

lemma finish_handled: "finish s sess code send = (s', sess') \<Longrightarrow> handled sess' = handled sess"
  by (cases "exited sess") (auto simp: finish_exited setup_of_def dest: finish_first(4))

lemma counts_request:
  assumes "counts_ok s sess" "handle_request os s sess r = (s', sess', g)"
  shows "counts_ok s' sess' \<and> exited sess' = exited sess"
proof (cases "request_signal r = []")
  case True
  with quiet_request [OF assms(2)] counts_quiet [OF assms(1)] show ?thesis by (auto simp: quiet_def)
next
  case False
  with request_signal_cases [of r] obtain k where "request_signal r = [k]" by auto
  with request_signal_effect [OF assms(2)] assms(1) show ?thesis
    by (auto simp: counts_ok_def act_def reply_def split: option.splits)
qed

lemma end_inv_step:
  assumes inv: "end_inv y" and step: "sess_step y z"
  shows "end_inv z"
  using step
proof cases
  case (request os r s' sess' g)
  with counts_request [of "sySrv y" "sySess y"] inv
  have c: "counts_ok s' sess'" "exited sess' = exited (sySess y)" by (auto simp: end_inv_alt)
  have "handled sess' \<longleftrightarrow> handled (sySess y) \<or> g = SpawnRun \<or> g = SpawnSFTP"
    using handle_request_spawn [OF request(3)] handle_request_frozen [OF request(3)] by (auto simp: setup_of_def)
  moreover have "handled (sySess y) \<Longrightarrow> g = NoSpawn" using handle_request_frozen [OF request(3)] by blast
  ultimately show ?thesis using c inv request(1) by (auto simp: end_inv_alt)
next
  case (record_plain os s' sess')
  with counts_quiet [OF _ quiet_startRecorder [OF record_plain(4)]] inv startRecorder_frame(2) [OF record_plain(4)]
  show ?thesis by (auto simp: end_inv_alt setup_of_def)
next
  case (start_failed g s' sess')
  obtain send where "finish (sySrv y) (sySess y) 1 send = (s', sess')" "is_exit_msg send"
    using exit_session_finish [of "sySrv y" "sySess y" 1] start_failed(3) by auto
  with counts_finish [OF _ this] finish_handled [OF this(1)] inv start_failed show ?thesis by (auto simp: end_inv_alt)
next
  case (registered p)
  with inv show ?thesis
    by (auto simp: end_inv_alt counts_ok_def setProc_def act_def filter_map comp_def)
next
  case (ended p st s' sess')
  obtain code send where "finish (sySrv y) (sySess y) code send = (s', sess')" "is_exit_msg send"
    using exitProcess_finish [of "sySrv y" "sySess y" st] ended(3) by auto
  with counts_finish [OF _ this] finish_handled [OF this(1)] inv ended show ?thesis by (auto simp: end_inv_alt)
next
  case (recording_full s' sess')
  obtain s1 x1 send where q: "quiet (sySrv y) (sySess y) s1 x1" and f: "finish s1 x1 1 send = (s', sess')" "is_exit_msg send"
    and h: "setup_of x1 = setup_of (sySess y)"
    using recordingFull_finish [of "sySrv y" "sySess y"] recording_full(3) by auto
  with counts_finish [OF counts_quiet [OF _ q] f] finish_handled [OF f(1)] inv recording_full
  show ?thesis by (auto simp: end_inv_alt setup_of_def)
next
  case hangup
  with inv show ?thesis
    by (auto simp: end_inv_alt counts_ok_def killProc_def act_def Let_def split: option.splits)
next
  case release
  with inv show ?thesis
    by (auto simp: end_inv_alt counts_ok_def release_unused_def act_def split: option.splits)
next
  case (others s' evs)
  then have "filter (is_end (sessionID (sySess y))) evs = []" by (auto simp: filter_empty_conv is_end_def)
  with inv others show ?thesis by (auto simp: end_inv_alt counts_ok_def)
qed (use inv in \<open>auto simp: end_inv_alt\<close>)

section \<open>Signals and the end of the process\<close>

definition same_signals :: "session \<Rightarrow> session \<Rightarrow> bool" where
  "same_signals x x' \<longleftrightarrow> proc x' = proc x \<and> wantKill x' = wantKill x \<and> pendingSignals x' = pendingSignals x \<and>
     sent_signals (trace x') = sent_signals (trace x) \<and> set (trace x) \<subseteq> set (trace x')"

lemma same_signals_quiet: "quiet s x s' x' \<Longrightarrow> same_signals x x'"
  by (auto simp: same_signals_def elim!: quietE)

lemma same_signals_finish:
  assumes "finish s x code send = (s', x')" "is_exit_msg send"
  shows "same_signals x x'"
proof (cases "exited x")
  case True
  with assms(1) show ?thesis by (auto simp: finish_exited same_signals_def)
next
  case False
  note f = finish_first [OF False assms(1)]
  obtain es where es: "trace x' = trace x @ es @ [send, ChannelClosed]" "set es \<subseteq> {RecordedExit code, RecorderClosed}"
    using f(9) by blast
  from es(2) have "sent_signals es = []"
    by (induction es rule: sent_signals.induct) auto
  moreover have "sent_signals [send, ChannelClosed] = []" using assms(2) by (cases send) auto
  ultimately show ?thesis using es(1) f(6-8) by (auto simp: same_signals_def)
qed

lemma same_signals_trans: "same_signals x y \<Longrightarrow> same_signals y z \<Longrightarrow> same_signals x z"
  by (auto simp: same_signals_def)

lemma signal_inv_same:
  assumes "signal_inv y" "same_signals (sySess y) (sySess z)" "reqsOpen z = reqsOpen y"
    "accepted z = accepted y" "handler z = handler y \<or> handler z = Finished"
  shows "signal_inv z"
proof (cases "proc (sySess y)")
  case None
  with assms show ?thesis by (auto simp: signal_inv_def same_signals_def)
next
  case (Some q)
  with assms show ?thesis by (auto simp: signal_inv_def same_signals_def)
qed

lemma signal_inv_request:
  assumes inv: "signal_inv y" "end_inv y" and run: "handle_request os (sySrv y) (sySess y) r = (s', sess', g)"
  shows "signal_inv (y\<lparr>sySrv := s', sySess := sess', accepted := accepted y @ request_signal r,
      handler := if g = SpawnRun \<or> g = SpawnSFTP then Starting g else handler y\<rparr>)"
    (is "signal_inv ?z")
proof (cases "request_signal r = []")
  case True
  have same: "same_signals (sySess y) sess'" using quiet_request [OF run True] by (rule same_signals_quiet)
  show ?thesis
  proof (cases "g = SpawnRun \<or> g = SpawnSFTP")
    case go: True
    then have "handler y = NotStarted"
      using handle_request_frozen [OF run] inv(2) by (auto simp: end_inv_alt)
    with inv(1) have "proc (sySess y) = None" by (auto simp: signal_inv_def split: option.splits)
    with inv(1) same go True show ?thesis by (auto simp: signal_inv_def same_signals_def)
  next
    case False
    with True same show ?thesis by (intro signal_inv_same [OF inv(1)]) auto
  qed
next
  case False
  with request_signal_cases [of r] obtain k where k: "request_signal r = [k]" by auto
  note eff = request_signal_effect [OF run k]
  show ?thesis
  proof (cases "proc (sySess y)")
    case None
    with inv(1) eff k show ?thesis by (auto simp: signal_inv_def)
  next
    case (Some q)
    with inv(1) eff k show ?thesis by (auto simp: signal_inv_def)
  qed
qed

lemma signal_inv_step:
  assumes inv: "signal_inv y" "end_inv y" and step: "sess_step y z"
  shows "signal_inv z"
  using step
proof cases
  case (request os r s' sess' g)
  with signal_inv_request [OF inv request(3)] show ?thesis by simp
next
  case (record_plain os s' sess')
  with same_signals_quiet [OF quiet_startRecorder [OF record_plain(4)]] show ?thesis
    by (intro signal_inv_same [OF inv(1)]) auto
next
  case (start_failed g s' sess')
  obtain send where "finish (sySrv y) (sySess y) 1 send = (s', sess')" "is_exit_msg send"
    using exit_session_finish [of "sySrv y" "sySess y" 1] start_failed(3) by auto
  with same_signals_finish start_failed(1) show ?thesis by (intro signal_inv_same [OF inv(1)]) auto
next
  case (started g os_env euid ids1 ids2 start1 start2 c p notice exe)
  with inv(1) show ?thesis by (auto simp: signal_inv_def split: option.splits)
next
  case (registered p)
  with inv(1) have "proc (sySess y) = None" by (auto simp: signal_inv_def split: option.splits)
  with registered inv(1) show ?thesis by (auto simp: signal_inv_def setProc_def act_def)
next
  case (ended p st s' sess')
  obtain code send where "finish (sySrv y) (sySess y) code send = (s', sess')" "is_exit_msg send"
    using exitProcess_finish [of "sySrv y" "sySess y" st] ended(3) by auto
  with same_signals_finish ended(1) show ?thesis by (intro signal_inv_same [OF inv(1)]) auto
next
  case (recording_full s' sess')
  obtain s1 x1 send where q: "quiet (sySrv y) (sySess y) s1 x1" and f: "finish s1 x1 1 send = (s', sess')" "is_exit_msg send"
    using recordingFull_finish [of "sySrv y" "sySess y"] recording_full(3) by auto
  from same_signals_trans [OF same_signals_quiet [OF q] same_signals_finish [OF f]] recording_full(1)
  show ?thesis by (intro signal_inv_same [OF inv(1)]) auto
next
  case hangup
  with inv(1) show ?thesis by (auto simp: signal_inv_def killProc_def act_def Let_def split: option.splits)
next
  case release
  then have "same_signals (sySess y) (sySess z)"
    by (auto simp: same_signals_def release_unused_def split: option.splits)
  with release(1) show ?thesis by (intro signal_inv_same [OF inv(1)]) auto
next
  case (others s' evs)
  then show ?thesis by (intro signal_inv_same [OF inv(1)]) (auto simp: same_signals_def)
qed

lemma serveSession_fresh:
  assumes "serveSession sid s st = Some (s', sess)"
  shows "sessionID sess = sid" "exited sess = False" "trace sess = []" "proc sess = None"
    "wantKill sess = False" "pendingSignals sess = []" "handled sess = False"
    "\<exists>ev. auditLog s' = auditLog s @ [ev] \<and> evType ev = eventSessionStart"
  using assms by (auto simp: serveSession_def Let_def split: option.splits)

interpretation sess: transition_system sess_init sess_step "\<lambda>y. end_inv y \<and> signal_inv y"
proof
  fix y assume "sess_init y"
  then obtain sid s st where serve: "serveSession sid s st = Some (sySrv y, sySess y)"
    and fresh: "\<forall>ev \<in> set (auditLog s). evSessionID ev \<noteq> sid"
    and rest: "handler y = NotStarted" "reqsOpen y" "accepted y = []" by (auto simp: sess_init_def)
  have "filter (is_end sid) (auditLog s) = []" using fresh by (auto simp: filter_empty_conv is_end_def)
  with serveSession_fresh [OF serve] rest show "end_inv y \<and> signal_inv y"
    by (auto simp: end_inv_def signal_inv_def is_end_def)
qed (use end_inv_step signal_inv_step in blast)

text \<open>
  C16. However the client, the command, the recorder and other connections interleave, a session
  ends at most once: the client gets one exit message for each end event on the audit log, never
  a second of either, and a handler that is done has sent and logged it.
\<close>

theorem session_ends_once:
  assumes "sess_init y" "sess_step\<^sup>*\<^sup>* y z"
  shows "length (filter (is_end (sessionID (sySess z))) (auditLog (sySrv z))) =
      length (filter is_exit_msg (trace (sySess z))) \<and>
    length (filter is_exit_msg (trace (sySess z))) \<le> 1 \<and>
    (handler z = Finished \<longrightarrow> length (filter is_exit_msg (trace (sySess z))) = 1)"
  using sess.inv_reachable [OF assms] by (auto simp: end_inv_def)

text \<open>
  C17. No signal that was acknowledged is lost or reordered: what the process received is, in
  order, all of them, those that came before it was started included, and before it is known
  they wait. And no process outlives its client: once the requests have ended, a running
  process has been killed, also when it was started at the very same moment.
\<close>

theorem signals_in_order_and_kill:
  assumes "sess_init y" "sess_step\<^sup>*\<^sup>* y z"
  shows "(\<forall>p. proc (sySess z) = Some p \<longrightarrow> sent_signals (trace (sySess z)) = map (Pair p) (accepted z)) \<and>
    (proc (sySess z) = None \<longrightarrow>
       sent_signals (trace (sySess z)) = [] \<and> pendingSignals (sySess z) = accepted z) \<and>
    (\<forall>p. handler z = Running p \<and> \<not> reqsOpen z \<longrightarrow> Killed p \<in> set (trace (sySess z)))"
  using sess.inv_reachable [OF assms] by (cases "proc (sySess z)") (auto simp: signal_inv_def)

section \<open>A concrete run\<close>

definition ex_sys :: sess_sys where
  "ex_sys = \<lparr>sySrv = ex_log, sySess = ex_sess ex_forced, handler = NotStarted, reqsOpen = True, accepted = []\<rparr>"

lemma ex_sys_init: "sess_init ex_sys"
proof -
  have "auditLog ex_server = []" by (simp add: ex_server_def)
  with ex_serve show ?thesis
    unfolding sess_init_def by (intro conjI exI) (auto simp: ex_sys_def ex_log_def)
qed

text \<open>A signal before the command, the command, its start, a hangup before it is registered.\<close>

lemma ex_sys_run: "\<exists>z. sess_step\<^sup>*\<^sup>* ex_sys z \<and> handler z = Running 41 \<and> \<not> reqsOpen z"
proof -
  obtain s1 x1 g1 where 1: "handle_request ex_os (sySrv ex_sys) (sySess ex_sys) (ReqCommand Shell) = (s1, x1, g1)"
    by (cases "handle_request ex_os (sySrv ex_sys) (sySess ex_sys) (ReqCommand Shell)")
  have g1: "g1 = SpawnRun" and x1: "x1 = (ex_sess ex_forced)\<lparr>rawCmd := ''backup'', handled := True, trace := [Replied True]\<rparr>"
    using 1 by (auto simp: ex_sys_def request_defs forceCommand_def ex_forced_def map_get_def ex_sess_def)
  define y1 where "y1 = ex_sys\<lparr>sySrv := s1, sySess := x1, accepted := accepted ex_sys @ request_signal (ReqCommand Shell),
      handler := Starting SpawnRun\<rparr>"
  have s1: "sess_step ex_sys y1"
    using sess_step.request [OF _ 1] by (simp add: g1 y1_def ex_sys_def)
  have u: "sysUser x1 = ex_account" "ptmx x1 = None" by (simp_all add: x1 ex_sess_def)
  obtain c where c: "run_start Map.empty 0 ex_ids ex_ids (\<lambda>_. Inr 41) (\<lambda>_. Inr 41) x1 = Some (c, 41, '''')"
    by (simp add: run_start_def startInHome_def shellCmd_def Let_def sysProcAttr_def u ex_groups with_ctty_def)
  have "run_start Map.empty 0 ex_ids ex_ids (\<lambda>_. Inr 41) (\<lambda>_. Inr 41) (sySess y1) = Some (c, 41, '''')"
    using c by (simp add: y1_def)
  then have s2: "sess_step y1 (y1\<lparr>handler := Launched 41\<rparr>)"
    by (intro sess_step.started [OF _ disjI1]) (auto simp: y1_def)
  define y3 where "y3 = (y1\<lparr>handler := Launched 41\<rparr>)\<lparr>sySess := killProc ((sySess y1)\<lparr>cancelled := True\<rparr>), reqsOpen := False\<rparr>"
  have s3: "sess_step (y1\<lparr>handler := Launched 41\<rparr>) y3"
    using sess_step.hangup [of "y1\<lparr>handler := Launched 41\<rparr>"] by (simp add: y3_def y1_def ex_sys_def)
  have s4: "sess_step y3 (y3\<lparr>sySess := setProc (sySess y3) 41, handler := Running 41\<rparr>)"
    by (intro sess_step.registered) (simp add: y3_def)
  from s1 s2 s3 s4 have "sess_step\<^sup>*\<^sup>* ex_sys (y3\<lparr>sySess := setProc (sySess y3) 41, handler := Running 41\<rparr>)"
    by (meson converse_rtranclp_into_rtranclp rtranclp.rtrancl_refl)
  then show ?thesis by (intro exI conjI) (auto simp: y3_def)
qed

theorem session_ends_once_witness:
  "\<exists>z. sess_step\<^sup>*\<^sup>* ex_sys z \<and> handler z = Running 41 \<and> length (filter is_exit_msg (trace (sySess z))) \<le> 1"
  using ex_sys_run session_ends_once [OF ex_sys_init] by blast

theorem signals_in_order_and_kill_witness:
  "\<exists>z. sess_step\<^sup>*\<^sup>* ex_sys z \<and> handler z = Running 41 \<and> \<not> reqsOpen z \<and> Killed 41 \<in> set (trace (sySess z))"
  using ex_sys_run signals_in_order_and_kill [OF ex_sys_init] by blast

end
