(* ===== verification/Client_Sync.thy ===== *)
theory Client_Sync
  imports Server
begin

text \<open>
  Syncing with the backend, \<^verbatim>\<open>internal/client/sync.go\<close>, and \<^verbatim>\<open>DropRevoked\<close> of
  \<^verbatim>\<open>internal/sshd/server.go\<close>: how a changed access list, policy and trust reach the running
  server, the cache and the disk, and how open connections that lost their access are closed.
\<close>

section \<open>Revocation\<close>

text \<open>What an open connection needs to stay: the principal it logged in with, and its authority.\<close>

definition still_allowed :: "gotime \<Rightarrow> (string \<Rightarrow> string list) \<Rightarrow> server \<Rightarrow> server_conn \<Rightarrow> bool" where
  "still_allowed now principals s c =
     (let ext = Extensions (sc_perms c) in
      map_get ext ''nokku-principal'' \<in> set (principals (cm_user (sc_meta c))) \<and>
      trustedCAWire now s (map_get ext ''nokku-ca''))"

definition drop_one :: "gotime \<Rightarrow> (string \<Rightarrow> string list) \<Rightarrow> server \<Rightarrow> nat \<Rightarrow> server" where
  "drop_one now principals s i =
     (case live s i of None \<Rightarrow> s
      | Some c \<Rightarrow>
          if still_allowed now principals s c then s
          else s\<lparr>live := (live s)(i \<mapsto> c\<lparr>sc_open := False\<rparr>)\<rparr>)"

text \<open>\<^verbatim>\<open>DropRevoked\<close> goes over the connections in the order the map is ranged over.\<close>

fun DropRevoked :: "gotime \<Rightarrow> (string \<Rightarrow> string list) \<Rightarrow> server \<Rightarrow> nat list \<Rightarrow> server" where
  "DropRevoked now principals s [] = s"
| "DropRevoked now principals s (i # is) = DropRevoked now principals (drop_one now principals s i) is"

section \<open>Sync\<close>

datatype daemon_status = StatusUnspecified | StatusPending | StatusAccepted | StatusRejected | StatusUnknown int

record sync_response =
  srStatus :: daemon_status
  srPrincipals :: "(string \<times> string list) list"
  srConfig :: "daemon_config option"
  srCA :: string
  srRetired :: "retired_ca_key list"
  srVersion :: int

text \<open>
  The client with what it shares: the cache, the server, the configuration, what is on disk and
  whether the certificate watcher has been woken. A write of a file succeeds or fails.
\<close>

record client =
  clCache :: cacheJSON
  clSrv :: server
  clConfig :: config
  diskCache :: "cacheJSON option"
  diskConfig :: "config option"
  renewWanted :: bool

datatype sync_result = SyncFailed | SyncIgnored | DaemonRejected | SyncApplied bool

definition save_cache :: "bool \<Rightarrow> client \<Rightarrow> client" where
  "save_cache ok c = (if ok then c\<lparr>diskCache := Some (clCache c)\<rparr> else c)"

definition principal_list :: "(string \<times> string list) list \<Rightarrow> principal_map" where
  "principal_list ps = foldl (\<lambda>m p. m(fst p \<mapsto> snd p)) Map.empty ps"

definition reject_daemon :: "bool \<Rightarrow> bool \<Rightarrow> client \<Rightarrow> client" where
  "reject_daemon cache_ok config_ok c =
     (let c1 = save_cache cache_ok (c\<lparr>clCache := Clear (clCache c)\<rparr>) in
      if config_ok
      then c1\<lparr>diskConfig := Some \<lparr>TargetID = '''', DaemonID = '''', APIURL = APIURL (clConfig c),
                APICA = APICA (clConfig c), SessionToken = ''''\<rparr>\<rparr>
      else c1)"

definition apply_sync ::
    "key_parser \<Rightarrow> gotime \<Rightarrow> nat list \<Rightarrow> sync_response \<Rightarrow> client \<Rightarrow> client"
where
  "apply_sync parse_key now order r c =
     (let previousCA = fst (CAs (clCache c));
          cache = Replace (clCache c) (principal_list (srPrincipals r)) (srConfig r) (srCA r) (srRetired r) (srVersion r);
          s1 = SetPolicy (clSrv c) (PolicyFrom (srConfig r));
          s2 = SetTrust parse_key s1 (srCA r) (srRetired r);
          s3 = DropRevoked now (CertPrincipals cache) s2 order
      in c\<lparr>clCache := cache, clSrv := s3, renewWanted := renewWanted c \<or> srCA r \<noteq> previousCA\<rparr>)"

definition syncDaemon ::
    "key_parser \<Rightarrow> gotime \<Rightarrow> nat list \<Rightarrow> sync_response option \<Rightarrow> bool \<Rightarrow> bool \<Rightarrow> client \<Rightarrow> client \<times> sync_result"
where
  "syncDaemon parse_key now order res cache_ok config_ok c =
     (case res of None \<Rightarrow> (c, SyncFailed)
      | Some r \<Rightarrow>
          if srStatus r = StatusRejected then (reject_daemon cache_ok config_ok c, DaemonRejected)
          else if srStatus r = StatusUnspecified then (c, SyncIgnored)
          else (save_cache cache_ok (apply_sync parse_key now order r c), SyncApplied cache_ok))"

text \<open>The server a start of the daemon builds from the cache it loaded (\<^verbatim>\<open>run\<close> in \<^verbatim>\<open>main.go\<close>).\<close>

definition boot_server ::
    "key_parser \<Rightarrow> (certificate \<Rightarrow> bytes \<Rightarrow> bool) \<Rightarrow> certificate option \<Rightarrow> bytes option \<Rightarrow> cacheJSON \<Rightarrow> new_error + server"
where
  "boot_server parse_key cert_signer_ok stored host_key cache =
     (case NewServer cert_signer_ok stored host_key True (PolicyFrom (DaemonConfig cache)) of Inl e \<Rightarrow> Inl e
      | Inr s \<Rightarrow> Inr (SetTrust parse_key s (fst (CAs cache)) (snd (CAs cache))))"

section \<open>What a sync does\<close>

lemma drop_one_frame:
  "trustedCAs (drop_one now ps s i) = trustedCAs s" "retiredCAs (drop_one now ps s i) = retiredCAs s"
  "srvPolicy (drop_one now ps s i) = srvPolicy s" "dom (live (drop_one now ps s i)) = dom (live s)"
  by (auto simp: drop_one_def split: option.splits if_splits)

lemma still_allowed_cong:
  "trustedCAs s' = trustedCAs s \<Longrightarrow> retiredCAs s' = retiredCAs s \<Longrightarrow>
     still_allowed now ps s' c = still_allowed now ps s c"
  by (simp add: still_allowed_def trustedCAWire_def)

lemma DropRevoked_frame:
  "trustedCAs (DropRevoked now ps s is) = trustedCAs s" "retiredCAs (DropRevoked now ps s is) = retiredCAs s"
  "srvPolicy (DropRevoked now ps s is) = srvPolicy s"
  by (induction s "is" rule: DropRevoked.induct) (simp_all add: drop_one_frame)

text \<open>
  \<^verbatim>\<open>DropRevoked\<close> closes exactly the connections that lost their access and changes nothing else.
\<close>

lemma DropRevoked_live:
  "live (DropRevoked now ps s is) i =
     (case live s i of None \<Rightarrow> None
      | Some c \<Rightarrow> Some (if i \<in> set is \<and> \<not> still_allowed now ps s c then c\<lparr>sc_open := False\<rparr> else c))"
proof (induction now ps s "is" rule: DropRevoked.induct)
  case (2 now ps s j js)
  have allowed: "still_allowed now ps (drop_one now ps s j) c = still_allowed now ps s c" for c
    by (rule still_allowed_cong) (simp_all add: drop_one_frame)
  have closed: "still_allowed now ps s (c\<lparr>sc_open := False\<rparr>) = still_allowed now ps s c" for c
    by (simp add: still_allowed_def)
  have "live (DropRevoked now ps s (j # js)) i =
      (case live (drop_one now ps s j) i of None \<Rightarrow> None
       | Some c \<Rightarrow> Some (if i \<in> set js \<and> \<not> still_allowed now ps s c then c\<lparr>sc_open := False\<rparr> else c))"
    unfolding DropRevoked.simps(2) 2 allowed ..
  also have "live (drop_one now ps s j) i =
      (case live s i of None \<Rightarrow> None
       | Some c \<Rightarrow> Some (if i = j \<and> \<not> still_allowed now ps s c then c\<lparr>sc_open := False\<rparr> else c))"
    by (auto simp: drop_one_def split: option.splits)
  finally show ?case by (auto simp: closed split: option.splits)
qed (simp split: option.splits)

text \<open>
  C24. A sync that is applied reaches everything at once: the cache holds exactly the principals
  of the answer with a valid name, and its authorities and version; the policy is the one of the answer;
  the server trusts exactly the active key and the retired keys of the answer until they expire, or, when
  the active key cannot be read, what it trusted before; every connection that is still open has its principal and its authority there, no connection that
  has both is closed, and a changed authority wakes the certificate watcher.
\<close>

theorem sync_applied:
  assumes "syncDaemon parse_key now order (Some r) cache_ok config_ok c = (c', SyncApplied ok)"
    and "set order = dom (live (clSrv c))"
  shows "(\<forall>u. CertPrincipals (clCache c') u =
        (if validatePrincipal u then case principal_list (srPrincipals r) u of None \<Rightarrow> [] | Some ps \<Rightarrow> ps else [])) \<and>
    srvPolicy (clSrv c') = PolicyFrom (srConfig r) \<and>
    CAs (clCache c') = (srCA r, srRetired r) \<and> GetStateVersion (clCache c') = srVersion r \<and>
    (\<forall>t w. trustedCAWire t (clSrv c') w \<longleftrightarrow>
       (if srCA r \<noteq> '''' \<and> parse_key (srCA r) = None then trustedCAWire t (clSrv c) w
        else srCA r \<noteq> '''' \<and> parse_key (srCA r) = Some w \<or>
          (\<exists>k. find (\<lambda>k. parse_key (PublicKey k) = Some w) (rev (srRetired r)) = Some k \<and> time_before t (TrustedUntil k)))) \<and>
    (\<forall>i k. live (clSrv c') i = Some k \<and> sc_open k \<longrightarrow> still_allowed now (CertPrincipals (clCache c')) (clSrv c') k) \<and>
    (\<forall>i k. live (clSrv c) i = Some k \<and> still_allowed now (CertPrincipals (clCache c')) (clSrv c') k \<longrightarrow>
       live (clSrv c') i = Some k) \<and>
    (srCA r \<noteq> CA (clCache c) \<longrightarrow> renewWanted c') \<and>
    (ok \<longrightarrow> diskCache c' = Some (clCache c'))"
proof -
  define s2 where "s2 = SetTrust parse_key (SetPolicy (clSrv c) (PolicyFrom (srConfig r))) (srCA r) (srRetired r)"
  define cache where "cache = Replace (clCache c) (principal_list (srPrincipals r)) (srConfig r) (srCA r) (srRetired r) (srVersion r)"
  have st: "c' = save_cache cache_ok (apply_sync parse_key now order r c)" "ok = cache_ok"
    using assms(1) by (auto simp: syncDaemon_def split: if_splits)
  have c': "clCache c' = cache" "clSrv c' = DropRevoked now (CertPrincipals cache) s2 order"
    "renewWanted c' = (renewWanted c \<or> srCA r \<noteq> CA (clCache c))" "ok \<longrightarrow> diskCache c' = Some cache"
    by (simp_all add: st save_cache_def apply_sync_def Let_def cache_def s2_def CAs_def)
  have live2: "live s2 = live (clSrv c)" "srvPolicy s2 = PolicyFrom (srConfig r)"
    by (simp_all add: s2_def SetTrust_def SetPolicy_def split: option.splits)
  have pol: "trustedCAWire t (SetPolicy (clSrv c) p) w = trustedCAWire t (clSrv c) w" for t p w
    by (simp add: trustedCAWire_def SetPolicy_def)
  have drop: "trustedCAWire t (DropRevoked now ps s2 is) w = trustedCAWire t s2 w" for t ps "is" w
    by (simp add: trustedCAWire_def DropRevoked_frame)
  have trust: "trustedCAWire t (DropRevoked now ps s2 is) w \<longleftrightarrow>
       (if srCA r \<noteq> '''' \<and> parse_key (srCA r) = None then trustedCAWire t (clSrv c) w
        else srCA r \<noteq> '''' \<and> parse_key (srCA r) = Some w \<or>
          (\<exists>k. find (\<lambda>k. parse_key (PublicKey k) = Some w) (rev (srRetired r)) = Some k \<and> time_before t (TrustedUntil k)))"
    for t ps "is" w
    unfolding drop unfolding s2_def trust_after_sync pol ..
  have stored: "CAs cache = (srCA r, srRetired r)" "GetStateVersion cache = srVersion r"
    by (simp_all add: cache_def Replace_def CAs_def GetStateVersion_def)
  have al: "still_allowed now ps (DropRevoked now ps' s2 order) k = still_allowed now ps s2 k" for ps ps' k
    by (rule still_allowed_cong) (simp_all add: DropRevoked_frame)
  have open_ok: "still_allowed now (CertPrincipals cache) s2 k"
    if "live (DropRevoked now (CertPrincipals cache) s2 order) i = Some k" "sc_open k" for i k
    using that assms(2)
    by (auto simp: DropRevoked_live live2 split: option.splits if_splits)
  have kept: "live (DropRevoked now (CertPrincipals cache) s2 order) i = Some k"
    if "live (clSrv c) i = Some k" "still_allowed now (CertPrincipals cache) s2 k" for i k
    using that by (simp add: DropRevoked_live live2)
  have cp: "CertPrincipals cache u =
      (if validatePrincipal u then case principal_list (srPrincipals r) u of None \<Rightarrow> [] | Some ps \<Rightarrow> ps else [])" for u
    by (simp add: cache_def CertPrincipals_Replace)
  show ?thesis
    unfolding c'(1,2) al DropRevoked_frame trust stored using open_ok kept live2 c'(3,4) cp by blast
qed

text \<open>
  C25. A sync that fails or has no status changes nothing, so logins go on from the cache. A rejection
  clears the cache and leaves the server and the configuration in memory alone; on disk the cache is cleared and
  the configuration keeps the API and its CA only, each when its write succeeds and otherwise as it was.
\<close>

theorem sync_not_applied:
  assumes "syncDaemon parse_key now order res cache_ok config_ok c = (c', result)"
  shows "(result = SyncFailed \<longleftrightarrow> res = None) \<and>
    (result = SyncIgnored \<longleftrightarrow> (\<exists>r. res = Some r \<and> srStatus r = StatusUnspecified)) \<and>
    (result = DaemonRejected \<longleftrightarrow> (\<exists>r. res = Some r \<and> srStatus r = StatusRejected)) \<and>
    (result = SyncFailed \<or> result = SyncIgnored \<longrightarrow> c' = c) \<and>
    (result = DaemonRejected \<longrightarrow> clCache c' = NewCache \<and> CertPrincipals (clCache c') u = [] \<and>
       clSrv c' = clSrv c \<and> clConfig c' = clConfig c \<and>
       diskCache c' = (if cache_ok then Some NewCache else diskCache c) \<and>
       diskConfig c' = (if config_ok
         then Some \<lparr>TargetID = '''', DaemonID = '''', APIURL = APIURL (clConfig c), APICA = APICA (clConfig c), SessionToken = ''''\<rparr>
         else diskConfig c))"
  using assms
  by (auto simp: syncDaemon_def reject_daemon_def save_cache_def Clear_def NewCache_def CertPrincipals_def Let_def
      split: option.splits if_splits)

text \<open>
  C40. An answer whose authority cannot be read leaves the running server with the trust it had,
  but is stored; after the next start the daemon trusts nobody, so every login is refused.
\<close>

theorem unreadable_authority_locks_out_after_restart:
  assumes "srStatus r = StatusAccepted" "srCA r \<noteq> ''''" "parse_key (srCA r) = None"
    and "syncDaemon parse_key now order (Some r) True config_ok c = (c', result)"
  shows "trustedCAs (clSrv c') = trustedCAs (clSrv c) \<and> retiredCAs (clSrv c') = retiredCAs (clSrv c) \<and>
    diskCache c' = Some (clCache c') \<and>
    (\<forall>ok stored hk s w later. boot_server parse_key ok stored hk (clCache c') = Inr s \<longrightarrow> \<not> trustedCAWire later s w)"
proof -
  have c': "c' = save_cache True (apply_sync parse_key now order r c)"
    using assms(1,4) by (auto simp: syncDaemon_def)
  have ca: "CA (clCache c') = srCA r"
    by (simp add: c' save_cache_def apply_sync_def Let_def Replace_def)
  have trust: "SetTrust parse_key s (srCA r) rs = s" for s rs
    using assms(2,3) by (simp add: SetTrust_def)
  have "\<not> trustedCAWire later s w" if "boot_server parse_key ok stored hk (clCache c') = Inr s" for ok stored hk s w later
    using that
    by (auto simp: boot_server_def CAs_def ca trust NewServer_def Reload_def trustedCAWire_def
        split: sum.splits option.splits)
  then show ?thesis
    by (simp add: c' save_cache_def apply_sync_def Let_def trust DropRevoked_frame SetPolicy_def)
qed

section \<open>A concrete sync\<close>

definition ex_parse :: key_parser where
  "ex_parse k = (if k = ''ca-key'' then Some ''ca'' else None)"

definition ex_live :: "nat \<rightharpoonup> server_conn" where
  "ex_live = [3 \<mapsto> \<lparr>sc_meta = ex_meta, sc_perms = \<lparr>CriticalOptions = Map.empty,
     Extensions = [''nokku-principal'' \<mapsto> ''p2'', ''nokku-ca'' \<mapsto> ''ca''], ExtraAccount = Some ex_account\<rparr>, sc_open = True\<rparr>]"

definition ex_client :: client where
  "ex_client = \<lparr>clCache = ex_cache, clSrv = ex_server\<lparr>live := ex_live\<rparr>,
     clConfig = \<lparr>TargetID = ''t'', DaemonID = ''d'', APIURL = ''u'', APICA = '''', SessionToken = ''k''\<rparr>,
     diskCache = None, diskConfig = None, renewWanted = False\<rparr>"

definition ex_answer :: "string \<Rightarrow> sync_response" where
  "ex_answer ca = \<lparr>srStatus = StatusAccepted, srPrincipals = [(''bob'', [''p9''])], srConfig = None, srCA = ca,
     srRetired = [], srVersion = 8\<rparr>"

theorem sync_applied_witness:
  "\<exists>c'. syncDaemon ex_parse (Time 0 0) [3] (Some (ex_answer ''ca-key'')) True True ex_client = (c', SyncApplied True) \<and>
     (\<forall>i k. live (clSrv c') i = Some k \<and> sc_open k \<longrightarrow> still_allowed (Time 0 0) (CertPrincipals (clCache c')) (clSrv c') k)"
proof -
  have run: "syncDaemon ex_parse (Time 0 0) [3] (Some (ex_answer ''ca-key'')) True True ex_client =
      (save_cache True (apply_sync ex_parse (Time 0 0) [3] (ex_answer ''ca-key'') ex_client), SyncApplied True)"
    by (simp add: syncDaemon_def ex_answer_def)
  have order: "set [3] = dom (live (clSrv ex_client))" by (simp add: ex_client_def ex_live_def)
  from sync_applied [OF run order] run show ?thesis by blast
qed

theorem sync_not_applied_witness:
  "\<exists>c'. syncDaemon ex_parse (Time 0 0) [3] (Some ((ex_answer '''')\<lparr>srStatus := StatusRejected\<rparr>)) True True ex_client =
      (c', DaemonRejected) \<and> CertPrincipals (clCache c') ''bob'' = [] \<and> diskCache c' = Some NewCache \<and>
      clConfig c' = clConfig ex_client"
proof -
  have run: "syncDaemon ex_parse (Time 0 0) [3] (Some ((ex_answer '''')\<lparr>srStatus := StatusRejected\<rparr>)) True True ex_client =
      (reject_daemon True True ex_client, DaemonRejected)"
    by (simp add: syncDaemon_def)
  note rej = sync_not_applied [OF run, of "''bob''", THEN conjunct2, THEN conjunct2, THEN conjunct2, THEN conjunct2,
      THEN mp, OF refl, unfolded if_True]
  show ?thesis by (intro exI [of _ "reject_daemon True True ex_client"] conjI run)
    (use rej in blast)+
qed

theorem unreadable_authority_locks_out_after_restart_witness:
  "\<exists>c' result. syncDaemon ex_parse (Time 0 0) [3] (Some (ex_answer ''garbled'')) True True ex_client = (c', result) \<and>
     diskCache c' = Some (clCache c') \<and>
     (\<forall>ok stored hk s w later. boot_server ex_parse ok stored hk (clCache c') = Inr s \<longrightarrow> \<not> trustedCAWire later s w)"
proof -
  obtain c' result where run: "syncDaemon ex_parse (Time 0 0) [3] (Some (ex_answer ''garbled'')) True True ex_client = (c', result)"
    by (cases "syncDaemon ex_parse (Time 0 0) [3] (Some (ex_answer ''garbled'')) True True ex_client")
  have "srStatus (ex_answer ''garbled'') = StatusAccepted" "srCA (ex_answer ''garbled'') \<noteq> ''''"
    "ex_parse (srCA (ex_answer ''garbled'')) = None" by (simp_all add: ex_answer_def ex_parse_def)
  from unreadable_authority_locks_out_after_restart [OF this run] run show ?thesis by blast
qed

end
