(* ===== verification/Revocation.thy ===== *)
theory Revocation
  imports Client_Sync
begin

text \<open>
  Revocation under concurrency. A connection that authenticates while a sync runs could slip
  through between the two: \<^verbatim>\<open>handleConn\<close> enters it into the live connections and then runs
  \<^verbatim>\<open>DropRevoked\<close> itself, and the sync replaces the cache, then the trust, and then runs
  \<^verbatim>\<open>DropRevoked\<close>. The steps here are as small as the locks make them: \<^verbatim>\<open>DropRevoked\<close> holds
  \<^verbatim>\<open>liveMu\<close> and looks at one connection at a time, first at its principal, under the lock of the
  cache, and then at its authority, under the lock of the server, while the cache and the trust
  may change between any two of these looks.
\<close>

text \<open>
  The two halves of the look at one connection: whether the cache still names its principal, and
  then what becomes of it.
\<close>

definition principal_held :: "(string \<Rightarrow> string list) \<Rightarrow> server \<Rightarrow> nat \<Rightarrow> bool" where
  "principal_held principals s i =
     (case live s i of None \<Rightarrow> False
      | Some c \<Rightarrow> map_get (Extensions (sc_perms c)) ''nokku-principal'' \<in> set (principals (cm_user (sc_meta c))))"

definition drop_checked :: "gotime \<Rightarrow> bool \<Rightarrow> server \<Rightarrow> nat \<Rightarrow> server" where
  "drop_checked now held s i =
     (case live s i of None \<Rightarrow> s
      | Some c \<Rightarrow>
          if held \<and> trustedCAWire now s (map_get (Extensions (sc_perms c)) ''nokku-ca'') then s
          else s\<lparr>live := (live s)(i \<mapsto> c\<lparr>sc_open := False\<rparr>)\<rparr>)"

text \<open>With nothing in between they are one round of the loop of \<^const>\<open>DropRevoked\<close>.\<close>

lemma drop_one_halves: "drop_one now ps s i = drop_checked now (principal_held ps s i) s i"
  by (simp add: drop_one_def drop_checked_def principal_held_def still_allowed_def Let_def split: option.splits)







section \<open>The invariant\<close>






















section \<open>A concrete run\<close>









end
