(* ===== verification/Go_Time.thy ===== *)
theory Go_Time
  imports Nokkud_Prelude
begin

text \<open>
  Arithmetic of the Go package \<^verbatim>\<open>time\<close> at its width: a duration is a signed 64-bit number of
  nanoseconds, \<^verbatim>\<open>Add\<close> and \<^verbatim>\<open>Sub\<close> saturate as the library has them, and \<^verbatim>\<open>float64\<close> of an
  integer is rounded to 53 bits, to even on a tie.
\<close>

section \<open>Adding and subtracting\<close>

definition nsPerSec :: int where "nsPerSec = 1000000000"

definition time_add_sec :: "64 word \<Rightarrow> 64 word \<Rightarrow> 64 word" where
  "time_add_sec ext d =
     (let sum = ext + d in
      if (sint sum > sint ext) = (sint d > 0) then sum
      else if sint d > 0 then of_int (2 ^ 63 - 1) else of_int (- (2 ^ 63 - 1)))"

definition time_add :: "gotime \<Rightarrow> 64 word \<Rightarrow> gotime" where
  "time_add t d =
     (let dsec = trunc_div (sint d) nsPerSec; n = int (tnsec t) + trunc_rem (sint d) nsPerSec in
      if n \<ge> nsPerSec then Time (time_add_sec (tsec t) (of_int (dsec + 1))) (nat (n - nsPerSec))
      else if n < 0 then Time (time_add_sec (tsec t) (of_int (dsec - 1))) (nat (n + nsPerSec))
      else Time (time_add_sec (tsec t) (of_int dsec)) (nat n))"

definition maxDuration :: "64 word" where "maxDuration = of_int (2 ^ 63 - 1)"
definition minDuration :: "64 word" where "minDuration = of_int (- (2 ^ 63))"

definition time_sub :: "gotime \<Rightarrow> gotime \<Rightarrow> 64 word" where
  "time_sub t u =
     (let d = (tsec t - tsec u) * of_int nsPerSec + of_int (int (tnsec t) - int (tnsec u)) in
      if time_add u d = t then d else if time_before t u then minDuration else maxDuration)"

text \<open>An instant in nanoseconds.\<close>

definition ns :: "gotime \<Rightarrow> int" where
  "ns t = sint (tsec t) * nsPerSec + int (tnsec t)"

definition time_wf :: "gotime \<Rightarrow> bool" where
  "time_wf t \<longleftrightarrow> int (tnsec t) < nsPerSec"

lemma sint_of_int64: "- (2 ^ 63) \<le> i \<Longrightarrow> i < 2 ^ 63 \<Longrightarrow> sint (of_int i :: 64 word) = i"
  by (simp add: signed_take_bit_int_eq_self_iff sint_sbintrunc')

lemma sint_inj64: "sint a = sint b \<Longrightarrow> a = (b :: 64 word)"
  by (metis uint_sint word_uint_eqI)

lemma sint64_range: "- (2 ^ 63) \<le> sint (w :: 64 word)" "sint (w :: 64 word) < 2 ^ 63"
  using sint_greater_eq [of w] sint_less [of w] by simp_all

lemma sint_add64:
  assumes "- (2 ^ 63) \<le> sint a + sint b" "sint a + sint (b :: 64 word) < 2 ^ 63"
  shows "sint (a + b) = sint a + sint b"
proof -
  have "a + b = of_int (sint a + sint b)" by simp
  then show ?thesis using assms by (simp only: sint_of_int64)
qed

lemma time_add_sec_exact:
  assumes "- (2 ^ 63) \<le> sint a + d" "sint a + d < 2 ^ 63" "- (2 ^ 63) \<le> d" "d < 2 ^ 63"
  shows "sint (time_add_sec a (of_int d)) = sint a + d"
  using assms sint_add64 [of a "of_int d"] by (simp add: time_add_sec_def Let_def sint_of_int64)

lemma time_add_exact:
  assumes "time_wf t" "- (2 ^ 62) < sint (tsec t)" "sint (tsec t) < 2 ^ 62"
  shows "ns (time_add t d) = ns t + sint d" "time_wf (time_add t d)"
proof -
  define q r where "q = trunc_div (sint d) nsPerSec" and "r = trunc_rem (sint d) nsPerSec"
  have d: "sint d = q * nsPerSec + r" using trunc_div_rem [of "sint d" nsPerSec] by (simp add: q_def r_def)
  have r: "\<bar>r\<bar> < nsPerSec" using trunc_rem_bound [of nsPerSec "sint d"] by (simp add: r_def nsPerSec_def)
  have "\<bar>q\<bar> \<le> 2 ^ 60"
    using d r sint64_range [of d] by (auto simp: nsPerSec_def abs_le_iff)
  then have sec: "sint (time_add_sec (tsec t) (of_int (q + k))) = sint (tsec t) + q + k" if "\<bar>k\<bar> \<le> 1" for k
    using assms(2,3) that time_add_sec_exact [of "tsec t" "q + k"] by (simp add: abs_le_iff)
  have add: "time_add t d =
     (if int (tnsec t) + r \<ge> nsPerSec then Time (time_add_sec (tsec t) (of_int (q + 1))) (nat (int (tnsec t) + r - nsPerSec))
      else if int (tnsec t) + r < 0 then Time (time_add_sec (tsec t) (of_int (q + - 1))) (nat (int (tnsec t) + r + nsPerSec))
      else Time (time_add_sec (tsec t) (of_int (q + 0))) (nat (int (tnsec t) + r)))"
    by (simp add: time_add_def q_def r_def Let_def)
  have wf: "int (tnsec t) < nsPerSec" using assms(1) by (simp add: time_wf_def)
  consider "int (tnsec t) + r \<ge> nsPerSec" | "int (tnsec t) + r < 0" | "0 \<le> int (tnsec t) + r" "int (tnsec t) + r < nsPerSec"
    by linarith
  then have "ns (time_add t d) = ns t + sint d \<and> time_wf (time_add t d)"
  proof cases
    case 1
    then have a: "time_add t d = Time (time_add_sec (tsec t) (of_int (q + 1))) (nat (int (tnsec t) + r - nsPerSec))"
      unfolding add by (simp only: if_True)
    have s: "sint (time_add_sec (tsec t) (of_int (q + 1))) = sint (tsec t) + q + 1" by (rule sec) simp
    from 1 r wf show ?thesis
      unfolding a ns_def time_wf_def gotime.sel d s by (simp add: algebra_simps)
  next
    case 2
    moreover have "\<not> int (tnsec t) + r \<ge> nsPerSec" using 2 by (simp add: nsPerSec_def)
    ultimately have a: "time_add t d = Time (time_add_sec (tsec t) (of_int (q + - 1))) (nat (int (tnsec t) + r + nsPerSec))"
      unfolding add by (simp only: if_True if_False)
    have s: "sint (time_add_sec (tsec t) (of_int (q + - 1))) = sint (tsec t) + q + - 1" by (rule sec) simp
    from 2 r wf show ?thesis
      unfolding a ns_def time_wf_def gotime.sel d s by (simp add: algebra_simps)
  next
    case 3
    then have "\<not> int (tnsec t) + r \<ge> nsPerSec" "\<not> int (tnsec t) + r < 0" by simp_all
    then have a: "time_add t d = Time (time_add_sec (tsec t) (of_int (q + 0))) (nat (int (tnsec t) + r))"
      unfolding add by (simp only: if_False)
    have s: "sint (time_add_sec (tsec t) (of_int (q + 0))) = sint (tsec t) + q + 0" by (rule sec) simp
    from 3 show ?thesis
      unfolding a ns_def time_wf_def gotime.sel d s by (simp add: algebra_simps)
  qed
  then show "ns (time_add t d) = ns t + sint d" "time_wf (time_add t d)" by blast+
qed

lemma ns_split:
  assumes "time_wf t"
  shows "sint (tsec t) = ns t div nsPerSec" "int (tnsec t) = ns t mod nsPerSec"
  using assms by (simp_all add: ns_def time_wf_def nsPerSec_def)

lemma ns_inj:
  assumes "time_wf t" "time_wf u" "ns t = ns u"
  shows "t = u"
proof (rule gotime.expand)
  have "sint (tsec t) = sint (tsec u)" "int (tnsec t) = int (tnsec u)"
    using ns_split [OF assms(1)] ns_split [OF assms(2)] assms(3) by simp_all
  then show "tsec t = tsec u \<and> tnsec t = tnsec u" using sint_inj64 by simp
qed

lemma time_before_ns:
  assumes "time_wf t" "time_wf u"
  shows "time_before t u \<longleftrightarrow> ns t < ns u"
proof -
  have "tsec t = tsec u \<longleftrightarrow> sint (tsec t) = sint (tsec u)" using sint_inj64 by auto
  then have "time_before t u \<longleftrightarrow> sint (tsec t) < sint (tsec u) \<or>
      sint (tsec t) = sint (tsec u) \<and> int (tnsec t) < int (tnsec u)" by (simp add: time_before_def)
  with assms show ?thesis by (auto simp: ns_def time_wf_def nsPerSec_def)
qed

lemma time_sub_exact:
  assumes "time_wf t" "time_wf u" "- (2 ^ 62) < sint (tsec u)" "sint (tsec u) < 2 ^ 62"
    and "- (2 ^ 63) \<le> ns t - ns u" "ns t - ns u < 2 ^ 63"
  shows "sint (time_sub t u) = ns t - ns u"
proof -
  define d :: "64 word" where "d = (tsec t - tsec u) * of_int nsPerSec + of_int (int (tnsec t) - int (tnsec u))"
  have "d = of_int ((sint (tsec t) - sint (tsec u)) * nsPerSec + (int (tnsec t) - int (tnsec u)))"
    by (simp add: d_def)
  also have "(sint (tsec t) - sint (tsec u)) * nsPerSec + (int (tnsec t) - int (tnsec u)) = ns t - ns u"
    by (simp add: ns_def algebra_simps)
  finally have d: "sint d = ns t - ns u" using assms(5,6) by (simp only: sint_of_int64)
  have "time_add u d = t"
    using time_add_exact [OF assms(2,3,4), of d] assms(1) d by (intro ns_inj) simp_all
  with d show ?thesis unfolding time_sub_def Let_def d_def [symmetric] by simp
qed

section \<open>Floating point\<close>

fun bitlen :: "nat \<Rightarrow> nat" where
  "bitlen n = (if n = 0 then 0 else Suc (bitlen (n div 2)))"

declare bitlen.simps [simp del]

definition f64_round :: "nat \<Rightarrow> nat" where
  "f64_round n =
     (let e = bitlen n - 53; q = n div 2 ^ e; r = n mod 2 ^ e in
      (if 2 * r > 2 ^ e \<or> 2 * r = 2 ^ e \<and> odd q then q + 1 else q) * 2 ^ e)"

definition float64_of_int :: "int \<Rightarrow> int" where
  "float64_of_int i = sgn i * int (f64_round (nat \<bar>i\<bar>))"

lemma bitlen_bound: "n < 2 ^ k \<Longrightarrow> bitlen n \<le> k"
proof (induction k arbitrary: n)
  case (Suc k)
  then have "n div 2 < 2 ^ k" by auto
  with Suc.IH [of "n div 2"] show ?case by (subst bitlen.simps) simp
qed (simp add: bitlen.simps)

lemma f64_round_error: "\<bar>int (f64_round n) - int n\<bar> * 2 \<le> 2 ^ (bitlen n - 53)"
proof -
  define e q r where "e = bitlen n - 53" and "q = n div 2 ^ e" and "r = n mod 2 ^ e"
  have n: "n = q * 2 ^ e + r" and r: "r < 2 ^ e"
    by (simp_all only: q_def r_def div_mult_mod_eq) simp
  have "f64_round n = (if 2 * r > 2 ^ e \<or> 2 * r = 2 ^ e \<and> odd q then q + 1 else q) * 2 ^ e"
    by (simp add: f64_round_def Let_def e_def q_def r_def)
  then consider "f64_round n = q * 2 ^ e + 2 ^ e" "2 ^ e \<le> 2 * r" | "f64_round n = q * 2 ^ e" "2 * r \<le> 2 ^ e"
    by (force split: if_splits)
  then show ?thesis
  proof cases
    case 1
    then have "int (f64_round n) - int n = 2 ^ e - int r" by (simp add: n)
    moreover have "int (2 ^ e) \<le> int (2 * r)" "int r < int (2 ^ e)" using 1(2) r by (simp_all only: of_nat_le_iff of_nat_less_iff)
    ultimately show ?thesis unfolding e_def [symmetric] by simp
  next
    case 2
    then have "int (f64_round n) - int n = - int r" by (simp add: n)
    moreover have "int (2 * r) \<le> int (2 ^ e)" using 2(2) by (simp only: of_nat_le_iff)
    ultimately show ?thesis unfolding e_def [symmetric] by simp
  qed
qed

lemma float64_of_int_error:
  assumes "\<bar>i\<bar> < 2 ^ k"
  shows "\<bar>float64_of_int i - i\<bar> * 2 \<le> 2 ^ (k - 53)"
proof -
  have "nat \<bar>i\<bar> < 2 ^ k" using assms by (simp add: nat_less_iff)
  then have "(2 :: int) ^ (bitlen (nat \<bar>i\<bar>) - 53) \<le> 2 ^ (k - 53)"
    by (intro power_increasing diff_le_mono bitlen_bound) simp_all
  moreover have "float64_of_int i - i = sgn i * (int (f64_round (nat \<bar>i\<bar>)) - int (nat \<bar>i\<bar>))"
    by (simp add: float64_of_int_def right_diff_distrib sgn_mult_abs)
  then have "\<bar>float64_of_int i - i\<bar> \<le> \<bar>int (f64_round (nat \<bar>i\<bar>)) - int (nat \<bar>i\<bar>)\<bar>"
    by (simp add: abs_mult abs_sgn_eq)
  ultimately show ?thesis using f64_round_error [of "nat \<bar>i\<bar>"] by linarith
qed

end
