(* ===== verification/Host_Certs.thy ===== *)
theory Host_Certs
  imports Go_Time Client_Sync
begin

text \<open>
  The host certificate: \<^verbatim>\<open>internal/hostcerts/certs.go\<close>, the host key file of
  \<^verbatim>\<open>internal/sshd/keys.go\<close> and the watcher of \<^verbatim>\<open>internal/client/watcher.go\<close>. Parsing and printing
  keys is the work of \<^verbatim>\<open>golang.org/x/crypto/ssh\<close>, which is an argument.
\<close>

record ssh_lib =
  parseAuthorizedKey :: "string \<Rightarrow> public_key option"
  certWire :: "certificate \<Rightarrow> bytes"
  marshalAuthorizedKey :: "certificate \<Rightarrow> string"

definition key_wire :: "ssh_lib \<Rightarrow> public_key \<Rightarrow> bytes" where
  "key_wire lib k = (case k of PlainKey w \<Rightarrow> w | CertKey c \<Rightarrow> certWire lib c)"

text \<open>The two files of the data directory: the public host key and its certificate.\<close>

record host_disk =
  hostPub :: "string option"
  hostCert :: "string option"

section \<open>Validity\<close>

definition uint64ToUnixTime :: "64 word \<Rightarrow> gotime" where
  "uint64ToUnixTime t = (if uint t > 2 ^ 63 - 1 then time_unix (of_int (2 ^ 63 - 1)) 0 else time_unix t 0)"

definition renewalDeadline :: "certificate \<Rightarrow> gotime" where
  "renewalDeadline cert =
     (let validAfter = uint64ToUnixTime (ValidAfter cert); validBefore = uint64ToUnixTime (ValidBefore cert);
          half = trunc_div (float64_of_int (sint (time_sub validBefore validAfter))) 2
      in time_add validBefore (- of_int half))"

definition isValid :: "gotime \<Rightarrow> certificate \<Rightarrow> string \<Rightarrow> bool" where
  "isValid now cert targetID =
     (if targetID \<noteq> '''' \<and> ValidPrincipals cert \<noteq> [targetID] then False
      else if time_before now (uint64ToUnixTime (ValidAfter cert)) then False
      else if ValidBefore cert = CertTimeInfinity then True
      else time_before now (renewalDeadline cert))"

section \<open>Reading and writing the certificate\<close>

definition parseCertificateBytes :: "ssh_lib \<Rightarrow> string \<Rightarrow> certificate option" where
  "parseCertificateBytes lib data =
     (case parseAuthorizedKey lib (trim_space data) of
        Some (CertKey cert) \<Rightarrow> if certType cert = HostCert then Some cert else None
      | _ \<Rightarrow> None)"

definition LoadCert :: "ssh_lib \<Rightarrow> host_disk \<Rightarrow> certificate option" where
  "LoadCert lib d = Option.bind (hostCert d) (parseCertificateBytes lib)"

definition signedBy :: "ssh_lib \<Rightarrow> certificate \<Rightarrow> public_key \<Rightarrow> bool" where
  "signedBy lib cert ca = (SignatureKey cert = Some (key_wire lib ca))"

definition matchesKey :: "ssh_lib \<Rightarrow> certificate \<Rightarrow> string \<Rightarrow> bool" where
  "matchesKey lib cert pub =
     (case parseAuthorizedKey lib (trim_space pub) of None \<Rightarrow> False | Some key \<Rightarrow> certKey cert = key_wire lib key)"

definition saveCertificate :: "ssh_lib \<Rightarrow> bool \<Rightarrow> string \<Rightarrow> public_key \<Rightarrow> host_disk \<Rightarrow> host_disk \<times> bool" where
  "saveCertificate lib write_ok signed_text ca d =
     (case parseCertificateBytes lib signed_text of None \<Rightarrow> (d, False)
      | Some cert \<Rightarrow>
          if \<not> signedBy lib cert ca then (d, False)
          else if write_ok then (d\<lparr>hostCert := Some (marshalAuthorizedKey lib cert)\<rparr>, True)
          else (d, False))"

section \<open>Renewal\<close>

text \<open>The public key to sign, when a certificate is wanted.\<close>

definition needsRenewal :: "ssh_lib \<Rightarrow> gotime \<Rightarrow> string \<Rightarrow> public_key \<Rightarrow> host_disk \<Rightarrow> string option" where
  "needsRenewal lib now targetID ca d =
     (case hostPub d of None \<Rightarrow> None
      | Some pub \<Rightarrow>
          (case LoadCert lib d of None \<Rightarrow> Some pub
           | Some cert \<Rightarrow>
               if \<not> isValid now cert targetID \<or> \<not> matchesKey lib cert pub \<or> \<not> signedBy lib cert ca
               then Some pub else None))"

datatype renew_result = NotNeeded | RenewFailed | Renewed

definition RenewHostCerts ::
    "ssh_lib \<Rightarrow> gotime \<Rightarrow> string \<Rightarrow> string \<Rightarrow> (string \<Rightarrow> string option) \<Rightarrow> bool \<Rightarrow> host_disk \<Rightarrow> host_disk \<times> renew_result"
where
  "RenewHostCerts lib now targetID caKey sign write_ok d =
     (if caKey = '''' then (d, NotNeeded)
      else case parseAuthorizedKey lib caKey of None \<Rightarrow> (d, RenewFailed)
      | Some ca \<Rightarrow>
          (case needsRenewal lib now targetID ca d of None \<Rightarrow> (d, NotNeeded)
           | Some pub \<Rightarrow>
               (case sign pub of None \<Rightarrow> (d, RenewFailed)
                | Some signed_text \<Rightarrow>
                    (case saveCertificate lib write_ok signed_text ca d of (d', ok) \<Rightarrow>
                       (d', if ok then Renewed else RenewFailed)))))"

definition oneDay :: "64 word" where "oneDay = 86400000000000"

definition NextRenewal :: "ssh_lib \<Rightarrow> gotime \<Rightarrow> string \<Rightarrow> string \<Rightarrow> host_disk \<Rightarrow> gotime" where
  "NextRenewal lib now targetID caKey d =
     (case LoadCert lib d of None \<Rightarrow> now
      | Some cert \<Rightarrow>
          (case parseAuthorizedKey lib caKey of None \<Rightarrow> now
           | Some ca \<Rightarrow>
               if \<not> isValid now cert targetID \<or> \<not> signedBy lib cert ca then now
               else if ValidBefore cert = CertTimeInfinity then time_add now oneDay
               else if time_before (renewalDeadline cert) now then now else renewalDeadline cert))"

section \<open>The watcher\<close>

text \<open>
  One round of \<^verbatim>\<open>watchCertificates\<close>: \<^verbatim>\<open>renewHostCerts\<close>, which reloads the server after a renewal, and
  the delay until the next. The backoff of a failure is the third-party package's, so it is an argument.
\<close>

definition minRenewDelay :: "64 word" where "minRenewDelay = 30000000000"

definition renewHostCerts ::
    "ssh_lib \<Rightarrow> (certificate \<Rightarrow> bytes \<Rightarrow> bool) \<Rightarrow> gotime \<Rightarrow> (string \<Rightarrow> string option) \<Rightarrow> bool \<Rightarrow>
     client \<Rightarrow> host_disk \<Rightarrow> client \<times> host_disk \<times> bool"
where
  "renewHostCerts lib cert_signer_ok now sign write_ok c d =
     (case RenewHostCerts lib now (TargetID (clConfig c)) (fst (CAs (clCache c))) sign write_ok d of
        (d', Renewed) \<Rightarrow> (c\<lparr>clSrv := Reload cert_signer_ok (LoadCert lib d') (clSrv c)\<rparr>, d', True)
      | (d', NotNeeded) \<Rightarrow> (c, d', True)
      | (d', RenewFailed) \<Rightarrow> (c, d', False))"

definition watch_round ::
    "ssh_lib \<Rightarrow> (certificate \<Rightarrow> bytes \<Rightarrow> bool) \<Rightarrow> gotime \<Rightarrow> gotime \<Rightarrow> (string \<Rightarrow> string option) \<Rightarrow> bool \<Rightarrow> 64 word \<Rightarrow>
     client \<Rightarrow> host_disk \<Rightarrow> client \<times> host_disk \<times> 64 word"
where
  "watch_round lib cert_signer_ok now later sign write_ok backoff c d =
     (case renewHostCerts lib cert_signer_ok now sign write_ok c d of
        (c', d', False) \<Rightarrow> (c', d', backoff)
      | (c', d', True) \<Rightarrow>
          (c', d',
           let wait = time_sub (NextRenewal lib later (TargetID (clConfig c')) (fst (CAs (clCache c'))) d') later
           in if sint wait < sint minRenewDelay then minRenewDelay else wait))"

section \<open>The host key file\<close>

text \<open>\<^verbatim>\<open>writeHostPubKey\<close>: the new public key in its text form; the write may fail, the removal of the certificate too.\<close>

definition writeHostPubKey :: "string \<Rightarrow> bool \<Rightarrow> bool \<Rightarrow> host_disk \<Rightarrow> host_disk \<times> bool" where
  "writeHostPubKey pubData write_ok remove_ok d =
     (case hostPub d of
        None \<Rightarrow> if write_ok then (d\<lparr>hostPub := Some pubData\<rparr>, True) else (d, False)
      | Some old \<Rightarrow>
          if trim_space old = trim_space pubData then (d, True)
          else if write_ok then (d\<lparr>hostPub := Some pubData, hostCert := if remove_ok then None else hostCert d\<rparr>, True)
          else (d, False))"

text \<open>\<^verbatim>\<open>loadHostKey\<close>: the signer of the TPM package, or its failure; the result is the wire form of the key.\<close>

definition loadHostKey ::
    "(bytes \<times> string) option \<Rightarrow> bool \<Rightarrow> bool \<Rightarrow> bool \<Rightarrow> host_disk \<Rightarrow> host_disk \<times> bytes option"
where
  "loadHostKey signer write_ok remove_ok signer_ok d =
     (case signer of None \<Rightarrow> (d, None)
      | Some (key, pubData) \<Rightarrow>
          (case writeHostPubKey pubData write_ok remove_ok d of
             (d', False) \<Rightarrow> (d', None)
           | (d', True) \<Rightarrow> (d', if signer_ok then Some key else None)))"

section \<open>Half of the validity\<close>

text \<open>A validity as certificates have it: starting before it ends, and both in the next hundred billion years.\<close>

definition sane_validity :: "certificate \<Rightarrow> bool" where
  "sane_validity cert \<longleftrightarrow> uint (ValidAfter cert) \<le> uint (ValidBefore cert) \<and> uint (ValidBefore cert) < 2 ^ 61 \<and>
     (uint (ValidBefore cert) - uint (ValidAfter cert)) * nsPerSec < 2 ^ 63"

lemma uint64ToUnixTime_sane:
  assumes "uint t < 2 ^ 61"
  shows "ns (uint64ToUnixTime t) = (uint t + 62135596800) * nsPerSec" "time_wf (uint64ToUnixTime t)"
    "- (2 ^ 62) < sint (tsec (uint64ToUnixTime t))" "sint (tsec (uint64ToUnixTime t)) < 2 ^ 62"
proof -
  have "uint64ToUnixTime t = Time (t + 62135596800) 0"
    using assms by (simp add: uint64ToUnixTime_def time_unix_def unixToInternal_def)
  moreover have "sint (t + 62135596800) = uint t + 62135596800"
    using sint_of_int64 [of "uint t + 62135596800"] assms uint_ge_0 [of t] by simp
  ultimately show "ns (uint64ToUnixTime t) = (uint t + 62135596800) * nsPerSec" "time_wf (uint64ToUnixTime t)"
    "- (2 ^ 62) < sint (tsec (uint64ToUnixTime t))" "sint (tsec (uint64ToUnixTime t)) < 2 ^ 62"
    using assms by (simp_all add: ns_def time_wf_def nsPerSec_def add_pos_nonneg)
qed

lemma float64_nonneg: "0 \<le> i \<Longrightarrow> 0 \<le> float64_of_int i"
  by (simp add: float64_of_int_def sgn_if)

lemma deadline_error:
  assumes "sane_validity cert"
  defines "a \<equiv> ns (uint64ToUnixTime (ValidAfter cert))" and "b \<equiv> ns (uint64ToUnixTime (ValidBefore cert))"
  shows "\<bar>2 * ns (renewalDeadline cert) - (a + b)\<bar> \<le> 513" "time_wf (renewalDeadline cert)"
proof -
  let ?va = "uint64ToUnixTime (ValidAfter cert)" and ?vb = "uint64ToUnixTime (ValidBefore cert)"
  from assms(1) have u: "uint (ValidAfter cert) < 2 ^ 61" "uint (ValidBefore cert) < 2 ^ 61"
    by (auto simp: sane_validity_def)
  note A = uint64ToUnixTime_sane [OF u(1)] and B = uint64ToUnixTime_sane [OF u(2)]
  have D: "0 \<le> b - a" "b - a < 2 ^ 63"
    using assms(1) unfolding a_def b_def A(1) B(1) by (simp_all add: sane_validity_def nsPerSec_def algebra_simps)
  have sub: "sint (time_sub ?vb ?va) = b - a"
    unfolding a_def b_def by (rule time_sub_exact [OF B(2) A(2,3,4)]) (use D in \<open>simp_all add: a_def b_def\<close>)
  define f where "f = float64_of_int (b - a)"
  define half where "half = trunc_div f 2"
  have f: "0 \<le> f" "\<bar>f - (b - a)\<bar> * 2 \<le> 1024"
    using float64_nonneg [OF D(1)] float64_of_int_error [of "b - a" 63] D by (simp_all add: f_def)
  then have half: "half = f div 2" by (simp add: half_def trunc_div_def sgn_if)
  have "renewalDeadline cert = time_add ?vb (of_int (- half))"
    by (simp add: renewalDeadline_def Let_def sub half_def f_def)
  moreover have "0 \<le> half" "2 * half \<le> f" using f half by simp_all
  then have "sint (of_int (- half) :: 64 word) = - half"
    using f D by (intro sint_of_int64) (simp_all add: abs_le_iff)
  ultimately have "ns (renewalDeadline cert) = b - half" "time_wf (renewalDeadline cert)"
    using time_add_exact [OF B(2,3,4), of "of_int (- half)"] by (simp_all only: b_def)
  moreover have "2 * half \<le> f" "f \<le> 2 * half + 1" using half by presburger+
  then have "\<bar>2 * half - (b - a)\<bar> \<le> 513" using f by arith
  ultimately show "\<bar>2 * ns (renewalDeadline cert) - (a + b)\<bar> \<le> 513" "time_wf (renewalDeadline cert)"
    by linarith+
qed

text \<open>C29.
  A host certificate is renewed at half of its validity. For a certificate whose validity starts
  before it ends, the deadline is the middle of the two within 257 nanoseconds, though it goes through
  a floating-point number; and a certificate that names the target is taken for valid from its start
  up to exactly that deadline.
\<close>
theorem renewal_at_half_life:
  assumes "sane_validity cert" "time_wf now"
  shows "\<bar>2 * ns (renewalDeadline cert) -
      (ns (uint64ToUnixTime (ValidAfter cert)) + ns (uint64ToUnixTime (ValidBefore cert)))\<bar> \<le> 513 \<and>
    (isValid now cert targetID \<longleftrightarrow>
      (targetID = '''' \<or> ValidPrincipals cert = [targetID]) \<and>
      (uint (ValidAfter cert) + 62135596800) * nsPerSec \<le> ns now \<and> ns now < ns (renewalDeadline cert))"
proof -
  from assms(1) have u: "uint (ValidAfter cert) < 2 ^ 61" "ValidBefore cert \<noteq> CertTimeInfinity"
    by (auto simp: sane_validity_def CertTimeInfinity_def unsigned_minus_1_eq_mask mask_eq_exp_minus_1)
  note A = uint64ToUnixTime_sane [OF u(1)]
  show ?thesis
    using deadline_error [OF assms(1)] u(2)
      time_before_ns [OF assms(2) A(2)] time_before_ns [OF assms(2) deadline_error(2) [OF assms(1)]] A(1)
    by (auto simp: isValid_def)
qed

section \<open>What is stored\<close>

text \<open>What the package documents of its text form: a certificate that was parsed and is printed parses to itself.\<close>

definition prints_certificates :: "ssh_lib \<Rightarrow> bool" where
  "prints_certificates lib \<longleftrightarrow> (\<forall>s cert. parseAuthorizedKey lib s = Some (CertKey cert) \<longrightarrow>
     parseAuthorizedKey lib (trim_space (marshalAuthorizedKey lib cert)) = Some (CertKey cert))"

text \<open>C30.
  A certificate from another authority is never stored. A renewal that reports success leaves a host
  certificate signed by the trusted authority, and any other outcome leaves the files as they were;
  nothing is renewed, whatever the backend would sign, exactly when there is no authority or no host key yet,
  or the stored certificate is valid, for the present host key and by that authority.
\<close>
theorem renewed_by_trusted_authority:
  assumes "prints_certificates lib"
    and "RenewHostCerts lib now targetID caKey sign write_ok d = (d', result)"
  shows "(result \<noteq> Renewed \<longrightarrow> d' = d) \<and>
    (result = Renewed \<longrightarrow> (\<exists>ca cert. parseAuthorizedKey lib caKey = Some ca \<and> LoadCert lib d' = Some cert \<and>
        certType cert = HostCert \<and> signedBy lib cert ca \<and> hostPub d' = hostPub d)) \<and>
    (result = NotNeeded \<longleftrightarrow> caKey = '''' \<or>
      (\<exists>ca. parseAuthorizedKey lib caKey = Some ca \<and>
        (hostPub d = None \<or> (\<exists>cert pub. LoadCert lib d = Some cert \<and> isValid now cert targetID \<and> signedBy lib cert ca \<and>
          hostPub d = Some pub \<and> matchesKey lib cert pub))))"
proof -
  have host: "certType cert = HostCert \<and> parseCertificateBytes lib (marshalAuthorizedKey lib cert) = Some cert"
    if "parseCertificateBytes lib t = Some cert" for t cert
    using that assms(1)
    by (auto simp: parseCertificateBytes_def prints_certificates_def split: option.splits public_key.splits if_splits)
  show ?thesis
    using assms(2) host
    by (auto simp: RenewHostCerts_def saveCertificate_def needsRenewal_def LoadCert_def
        split: if_splits option.splits prod.splits)
qed

lemma sint_wrap64:
  assumes "2 ^ 63 \<le> i" "i < 2 ^ 64"
  shows "sint (of_int i :: 64 word) = i - 2 ^ 64"
proof -
  have "(of_int i :: 64 word) = of_int (i - 2 ^ 64)" by (simp add: word_of_int_eq_iff take_bit_eq_mod)
  moreover have "sint (of_int (i - 2 ^ 64) :: 64 word) = i - 2 ^ 64"
    by (rule sint_of_int64) (use assms in simp_all)
  ultimately show ?thesis by (simp only:)
qed

text \<open>A time the certificate has beyond the range of the library is taken for the distant past. From 62135596800
  seconds below the largest signed value on, the conversion wraps around, so a certificate that is
  valid nearly forever counts as expired, and one that starts then counts as started.
\<close>
theorem far_future_is_past:
  assumes "2 ^ 63 - 62135596800 \<le> uint t"
  shows "sint (tsec (uint64ToUnixTime t)) < 0"
proof (cases "uint t > 2 ^ 63 - 1")
  case True
  then show ?thesis
    using sint_wrap64 [of "2 ^ 63 - 1 + 62135596800"]
    by (simp add: uint64ToUnixTime_def time_unix_def unixToInternal_def)
next
  case False
  then show ?thesis
    using assms sint_wrap64 [of "uint t + 62135596800"]
    by (simp add: uint64ToUnixTime_def time_unix_def unixToInternal_def)
qed

section \<open>The watcher waits\<close>

text \<open>The watcher never spins. After a round that did not fail it waits for at least thirty seconds, and
  the server has been reloaded exactly when a certificate was written; so with a backoff of at least
  half of that the loop never runs at full speed, whatever the clock and the certificate say.
\<close>
theorem watcher_waits:
  assumes "watch_round lib cert_signer_ok now later sign write_ok backoff c d = (c', d', delay)"
  shows "(\<exists>ok. renewHostCerts lib cert_signer_ok now sign write_ok c d = (c', d', ok) \<and>
      (if ok then sint minRenewDelay \<le> sint delay else delay = backoff)) \<and>
    (c' = c \<or> clSrv c' = Reload cert_signer_ok (LoadCert lib d') (clSrv c))"
  using assms
  by (auto simp: watch_round_def renewHostCerts_def Let_def split: prod.splits bool.splits renew_result.splits if_splits)

section \<open>A new host key\<close>

text \<open>
  A certificate for a previous key is dropped: unless its removal fails, a certificate that is there
  after the key file was written was there before with the same key.
\<close>

lemma new_key_drops_certificate:
  assumes "writeHostPubKey pubData write_ok True d = (d', True)" "hostPub d \<noteq> None"
  shows "(\<exists>p. hostPub d' = Some p \<and> trim_space p = trim_space pubData) \<and>
    (hostCert d' = None \<or> d' = d)"
  using assms by (auto simp: writeHostPubKey_def split: option.splits if_splits)

section \<open>An example\<close>

definition ex_lib :: "certificate \<Rightarrow> ssh_lib" where
  "ex_lib cert = \<lparr>parseAuthorizedKey = (\<lambda>s. if s = ''ca'' then Some (PlainKey ''C'') else if s = ''pub'' then Some (PlainKey ''K'')
     else Some (CertKey cert)), certWire = (\<lambda>c. ''W''), marshalAuthorizedKey = (\<lambda>c. ''cert'')\<rparr>"

text \<open>Valid for a thousand seconds after second 5000.\<close>

definition ex_hcert :: certificate where
  "ex_hcert = \<lparr>certKey = ''K'', certType = HostCert, KeyId = '''', ValidPrincipals = [''t''], ValidAfter = 5000,
     ValidBefore = 6000, certCriticalOptions = Map.empty, certExtensions = Map.empty, SignatureKey = Some ''C''\<rparr>"

definition ex_disk :: host_disk where "ex_disk = \<lparr>hostPub = Some ''pub'', hostCert = None\<rparr>"

lemma ex_trim: "trim_space ''cert'' = ''cert''" "trim_space ''pub'' = ''pub''"
  by (simp_all add: trim_space_def go_spaces_def Let_def numeral_2_eq_2 numeral_3_eq_3)

lemma ex_lib_prints: "prints_certificates (ex_lib ex_hcert)"
  by (auto simp: prints_certificates_def ex_lib_def ex_trim)

theorem renewed_by_trusted_authority_witness:
  "\<exists>ca cert. parseAuthorizedKey (ex_lib ex_hcert) ''ca'' = Some ca \<and>
     LoadCert (ex_lib ex_hcert) (ex_disk\<lparr>hostCert := Some ''cert''\<rparr>) = Some cert \<and> signedBy (ex_lib ex_hcert) cert ca"
proof -
  have "RenewHostCerts (ex_lib ex_hcert) (Time 0 0) ''t'' ''ca'' (\<lambda>p. Some ''cert'') True ex_disk =
      (ex_disk\<lparr>hostCert := Some ''cert''\<rparr>, Renewed)"
    by (simp add: RenewHostCerts_def needsRenewal_def ex_disk_def LoadCert_def saveCertificate_def
        parseCertificateBytes_def ex_lib_def ex_trim signedBy_def key_wire_def ex_hcert_def)
  from renewed_by_trusted_authority [OF ex_lib_prints this] show ?thesis by blast
qed

theorem renewal_at_half_life_witness:
  "\<bar>2 * ns (renewalDeadline ex_hcert) -
      (ns (uint64ToUnixTime (ValidAfter ex_hcert)) + ns (uint64ToUnixTime (ValidBefore ex_hcert)))\<bar> \<le> 513"
  using renewal_at_half_life [of ex_hcert "Time 0 0"]
  by (simp add: sane_validity_def time_wf_def ex_hcert_def nsPerSec_def)

theorem far_future_is_past_witness: "sint (tsec (uint64ToUnixTime (2 ^ 63))) < 0"
  by (rule far_future_is_past) simp

theorem watcher_waits_witness:
  "\<exists>c' d' delay. watch_round (ex_lib ex_hcert) (\<lambda>c k. True) (Time 0 0) (Time 0 0) (\<lambda>p. None) True 0
     (ex_client\<lparr>clCache := NewCache\<rparr>) ex_disk = (c', d', delay) \<and> sint minRenewDelay \<le> sint delay"
proof -
  obtain c' d' delay where r: "watch_round (ex_lib ex_hcert) (\<lambda>c k. True) (Time 0 0) (Time 0 0) (\<lambda>p. None) True 0
     (ex_client\<lparr>clCache := NewCache\<rparr>) ex_disk = (c', d', delay)" by (rule prod_cases3)
  have "renewHostCerts (ex_lib ex_hcert) (\<lambda>c k. True) (Time 0 0) (\<lambda>p. None) True (ex_client\<lparr>clCache := NewCache\<rparr>) ex_disk =
      (ex_client\<lparr>clCache := NewCache\<rparr>, ex_disk, True)"
    by (simp add: renewHostCerts_def RenewHostCerts_def CAs_def NewCache_def)
  with watcher_waits [OF r] r show ?thesis by auto
qed

end
