(* ===== verification/Cast_Format.thy ===== *)
theory Cast_Format
  imports Complex_Main Recording_Files Go_Net
begin

text \<open>
  The lines of a recording, \<^verbatim>\<open>internal/recording/recorder.go\<close>: JSON strings as the encoder of the
  Go library writes them without HTML escaping (\<^verbatim>\<open>marshalEventData\<close>), the cut of a chunk at a
  character boundary (\<^verbatim>\<open>incompleteTail\<close>), and the intervals between events (\<^verbatim>\<open>roundInterval\<close>).
\<close>

section \<open>JSON strings\<close>

definition hex_digit :: "nat \<Rightarrow> char" where
  "hex_digit n = ''0123456789abcdef'' ! n"

definition json_escape :: "char \<Rightarrow> bytes" where
  "json_escape c =
     (if c = CHR 0x22 then [CHR 0x5C, CHR 0x22]
      else if c = CHR 0x5C then [CHR 0x5C, CHR 0x5C]
      else if c = CHR 0x08 then [CHR 0x5C, CHR ''b'']
      else if c = CHR 0x0C then [CHR 0x5C, CHR ''f'']
      else if c = CHR 0x0A then [CHR 0x5C, CHR ''n'']
      else if c = CHR 0x0D then [CHR 0x5C, CHR ''r'']
      else if c = CHR 0x09 then [CHR 0x5C, CHR ''t'']
      else if byte c < 0x20
      then [CHR 0x5C, CHR ''u'', CHR ''0'', CHR ''0'', hex_digit (byte c div 16), hex_digit (byte c mod 16)]
      else [c])"

text \<open>
  A byte that is not part of a well-formed character becomes the replacement character, and the
  two line separators U+2028 and U+2029 are escaped.
\<close>

function json_body :: "bytes \<Rightarrow> bytes" where
  "json_body [] = []"
| "json_body (c # cs) =
     (if byte c < 0x80 then json_escape c @ json_body cs
      else case utf8_lead c of
        Some (n, lo, hi) \<Rightarrow>
          if utf8_char (take n (c # cs)) then
            (if take n (c # cs) = [CHR 0xE2, CHR 0x80, CHR 0xA8] then CHR 0x5C # ''u2028''
             else if take n (c # cs) = [CHR 0xE2, CHR 0x80, CHR 0xA9] then CHR 0x5C # ''u2029''
             else take n (c # cs)) @ json_body (drop (n - 1) cs)
          else CHR 0x5C # ''ufffd'' @ json_body cs
      | None \<Rightarrow> CHR 0x5C # ''ufffd'' @ json_body cs)"
  by pat_completeness auto
termination by (relation "measure length") auto

definition marshalEventData :: "bytes \<Rightarrow> bytes" where
  "marshalEventData s = CHR 0x22 # json_body s @ [CHR 0x22]"

text \<open>A reader of JSON strings, as a player of the recording has one.\<close>

definition read_hex4 :: "bytes \<Rightarrow> nat option" where
  "read_hex4 hs =
     (if length hs = 4 \<and> list_all (\<lambda>c. hex_val c \<noteq> None) hs
      then Some (foldl (\<lambda>n c. 16 * n + the (hex_val c)) 0 hs) else None)"

definition json_unescape :: "char \<Rightarrow> char" where
  "json_unescape e =
     (if e = CHR ''b'' then CHR 0x08 else if e = CHR ''f'' then CHR 0x0C else if e = CHR ''n'' then CHR 0x0A
      else if e = CHR ''r'' then CHR 0x0D else if e = CHR ''t'' then CHR 0x09 else e)"

function json_read :: "bytes \<Rightarrow> bytes" where
  "json_read [] = []"
| "json_read (c # cs) =
     (if c \<noteq> CHR 0x5C then c # json_read cs
      else case cs of [] \<Rightarrow> []
      | e # r \<Rightarrow>
          if e = CHR ''u'' then
            (case read_hex4 (take 4 r) of
               Some v \<Rightarrow> encode_rune v @ json_read (drop 4 r)
             | None \<Rightarrow> json_read r)
          else json_unescape e # json_read r)"
  by pat_completeness auto
termination by (relation "measure length") auto

section \<open>Chunks end at a character\<close>

fun tail_scan :: "bytes \<Rightarrow> nat list \<Rightarrow> nat" where
  "tail_scan p [] = 0"
| "tail_scan p (i # is) =
     (if RuneStart (p ! (length p - i))
      then (if FullRune (drop (length p - i) p) then 0 else i)
      else tail_scan p is)"

text \<open>\<^verbatim>\<open>incompleteTail\<close> looks at the last one, two and three bytes.\<close>

definition incompleteTail :: "bytes \<Rightarrow> nat" where
  "incompleteTail p = tail_scan p (filter (\<lambda>i. i \<le> length p) [1, 2, 3])"

section \<open>Intervals\<close>

text \<open>
  The carry is a \<^verbatim>\<open>float64\<close>: the value is a rational number and \<open>fl\<close>, an argument, rounds the exact
  result of an operation to a \<^verbatim>\<open>float64\<close>. Times are in nanoseconds.
\<close>

definition maxIdleTime :: int where "maxIdleTime = 2000000000"

definition duration_seconds :: "(rat \<Rightarrow> rat) \<Rightarrow> int \<Rightarrow> rat" where
  "duration_seconds fl d =
     fl (of_int (trunc_div d 1000000000) + fl (of_int (trunc_rem d 1000000000) / 1000000000))"

text \<open>\<^verbatim>\<open>math.Round\<close> rounds halves away from zero.\<close>

definition math_round :: "rat \<Rightarrow> int" where
  "math_round x = (if x \<ge> 0 then \<lfloor>x + 1 / 2\<rfloor> else - \<lfloor>1 / 2 - x\<rfloor>)"

definition pad0 :: "nat \<Rightarrow> string \<Rightarrow> string" where
  "pad0 n s = replicate (n - length s) CHR ''0'' @ s"

text \<open>The verb \<^verbatim>\<open>%03d\<close>: the sign counts for the width.\<close>

definition fmt_03d :: "int \<Rightarrow> string" where
  "fmt_03d n = (if n < 0 then CHR ''-'' # pad0 2 (format_uint (nat (- n))) else pad0 3 (format_uint (nat n)))"

definition format_interval :: "int \<Rightarrow> string" where
  "format_interval ms = itoa (trunc_div ms 1000) @ ''.'' @ fmt_03d (trunc_rem ms 1000)"

definition round_ms :: "(rat \<Rightarrow> rat) \<Rightarrow> rat \<Rightarrow> int \<Rightarrow> rat \<times> int" where
  "round_ms fl carry gap =
     (let c = fl (carry + fl (duration_seconds fl gap * 1000)); ms = math_round c
      in (fl (c - of_int ms), ms))"

definition roundInterval :: "(rat \<Rightarrow> rat) \<Rightarrow> rat \<Rightarrow> int \<Rightarrow> rat \<times> string" where
  "roundInterval fl carry gap = (case round_ms fl carry gap of (carry', ms) \<Rightarrow> (carry', format_interval ms))"

definition event_line :: "string \<Rightarrow> string \<Rightarrow> bytes \<Rightarrow> bytes" where
  "event_line interval typ data =
     ''['' @ interval @ '', '' @ marshalEventData typ @ '', '' @ marshalEventData data @ '']'' @ [CHR 0x0A]"

section \<open>Reading back what was written\<close>

lemma hex_digit_val: "n < 16 \<Longrightarrow> hex_val (hex_digit n) = Some n"
proof -
  have "list_all (\<lambda>k. hex_val (hex_digit k) = Some k) [0..<16]" by code_simp
  then show "n < 16 \<Longrightarrow> hex_val (hex_digit n) = Some n" by (simp add: list_all_iff)
qed

lemma encode_rune_low: "byte c < 0x80 \<Longrightarrow> encode_rune (byte c) = [c]"
  by (simp add: encode_rune_def RuneError_def)

lemma json_read_escape: "byte c < 0x80 \<Longrightarrow> json_read (json_escape c @ r) = c # json_read r"
proof -
  assume c: "byte c < 0x80"
  show ?thesis
  proof (cases "json_escape c = [c]")
    case True
    then have "c \<noteq> CHR 0x5C" by (auto simp: json_escape_def)
    with True show ?thesis by simp
  next
    case False
    show ?thesis
    proof (cases "c \<in> {CHR 0x22, CHR 0x5C, CHR 0x08, CHR 0x0C, CHR 0x0A, CHR 0x0D, CHR 0x09}")
      case True
      then show ?thesis by (auto simp: json_escape_def json_unescape_def)
    next
      case f: False
      with False have esc: "json_escape c = [CHR 0x5C, CHR ''u'', CHR ''0'', CHR ''0'', hex_digit (byte c div 16), hex_digit (byte c mod 16)]"
        "byte c < 32" by (auto simp: json_escape_def split: if_splits)
      have "byte c div 16 < 16" using esc(2) by auto
      then have "read_hex4 [CHR ''0'', CHR ''0'', hex_digit (byte c div 16), hex_digit (byte c mod 16)] = Some (byte c)"
        by (simp add: read_hex4_def hex_digit_val) (simp add: hex_val_def)
      with esc(1) encode_rune_low [OF c] show ?thesis by simp
    qed
  qed
qed

lemma json_read_plain: "CHR 0x5C \<notin> set p \<Longrightarrow> json_read (p @ r) = p @ json_read r"
  by (induction p) auto

lemma utf8_char_high:
  assumes "utf8_char p" "0x80 \<le> byte (hd p)" "c \<in> set p"
  shows "0x80 \<le> byte c"
proof -
  from utf8_char_Cons [OF assms(1)] obtain d ds where "p = d # ds" "list_all is_cont ds" by auto
  with assms(2,3) show ?thesis by (auto simp: list_all_iff is_cont_def in_range_def)
qed

lemma json_read_2028:
  "json_read (CHR 0x5C # ''u2028'' @ r) = [CHR 0xE2, CHR 0x80, CHR 0xA8] @ json_read r"
  "json_read (CHR 0x5C # ''u2029'' @ r) = [CHR 0xE2, CHR 0x80, CHR 0xA9] @ json_read r"
proof -
  have "read_hex4 ''2028'' = Some 0x2028" "read_hex4 ''2029'' = Some 0x2029"
    by (simp_all add: read_hex4_def hex_val_def)
  moreover have "encode_rune 0x2028 = [CHR 0xE2, CHR 0x80, CHR 0xA8]" "encode_rune 0x2029 = [CHR 0xE2, CHR 0x80, CHR 0xA9]"
    by (simp_all add: encode_rune_def char_of_def bit_Suc_0_iff)
  ultimately show "json_read (CHR 0x5C # ''u2028'' @ r) = [CHR 0xE2, CHR 0x80, CHR 0xA8] @ json_read r"
    "json_read (CHR 0x5C # ''u2029'' @ r) = [CHR 0xE2, CHR 0x80, CHR 0xA9] @ json_read r" by simp_all
qed

text \<open>
  Text survives the recording: what the encoder writes for a valid string reads back as that
  string, control characters, quotes and line separators included.
\<close>

lemma json_read_body:
  assumes "valid_utf8 s"
  shows "json_read (json_body s) = s"
  using assms
proof (induction s rule: json_body.induct)
  case (2 c cs)
  show ?case
  proof (cases "byte c < 0x80")
    case True
    then have "utf8_lead c = Some (1, 0x80, 0xBF)" by (simp add: utf8_lead_def)
    with 2 True show ?thesis by (simp add: json_read_escape)
  next
    case False
    from 2(5) obtain n lo hi where l: "utf8_lead c = Some (n, lo, hi)" and ch: "utf8_char (take n (c # cs))"
      and v: "valid_utf8 (drop (n - 1) cs)" by (auto split: option.splits)
    have split: "take n (c # cs) @ drop (n - 1) cs = c # cs" using utf8_lead_bounds [OF l] by (cases n) auto
    have IH: "json_read (json_body (drop (n - 1) cs)) = drop (n - 1) cs" using 2(3) [OF False l refl refl ch v] .
    have "hd (take n (c # cs)) = c" using utf8_lead_bounds [OF l] by (cases n) auto
    then have plain: "CHR 0x5C \<notin> set (take n (c # cs))"
      using utf8_char_high [OF ch, of "CHR 0x5C"] False by auto
    have body: "json_body (c # cs) =
        (if take n (c # cs) = [CHR 0xE2, CHR 0x80, CHR 0xA8] then CHR 0x5C # ''u2028''
         else if take n (c # cs) = [CHR 0xE2, CHR 0x80, CHR 0xA9] then CHR 0x5C # ''u2029''
         else take n (c # cs)) @ json_body (drop (n - 1) cs)"
      using False l ch by simp
    show ?thesis
    proof (cases "take n (c # cs) = [CHR 0xE2, CHR 0x80, CHR 0xA8]")
      case True
      then have "json_body (c # cs) = CHR 0x5C # ''u2028'' @ json_body (drop (n - 1) cs)"
        unfolding body by simp
      then have "json_read (json_body (c # cs)) = take n (c # cs) @ drop (n - 1) cs"
        by (simp only: json_read_2028 IH True)
      with split show ?thesis by simp
    next
      case ne: False
      show ?thesis
      proof (cases "take n (c # cs) = [CHR 0xE2, CHR 0x80, CHR 0xA9]")
        case True
        then have "json_body (c # cs) = CHR 0x5C # ''u2029'' @ json_body (drop (n - 1) cs)"
          unfolding body by simp
        then have "json_read (json_body (c # cs)) = take n (c # cs) @ drop (n - 1) cs"
          by (simp only: json_read_2028 IH True)
        with split show ?thesis by simp
      next
        case False
        then have "json_body (c # cs) = take n (c # cs) @ json_body (drop (n - 1) cs)"
          unfolding body using ne by (simp only: if_False)
        then have "json_read (json_body (c # cs)) = take n (c # cs) @ drop (n - 1) cs"
          by (simp only: json_read_plain [OF plain] IH)
        with split show ?thesis by simp
      qed
    qed
  qed
qed simp

section \<open>Where chunks are cut\<close>

lemma incompleteTail_start:
  assumes "RuneStart (hd t)" "list_all is_cont (tl t)" "t \<noteq> []" "length t \<le> 3"
  shows "incompleteTail (q @ t) = (if FullRune t then 0 else length t)"
proof -
  from assms(3,4) consider a where "t = [a]" | a b where "t = [a, b]" | a b c where "t = [a, b, c]"
    by (cases t; cases "tl t"; cases "tl (tl t)") auto
  then show ?thesis
    using assms(1,2) by cases (auto simp: incompleteTail_def nth_append RuneStart_def)
qed

lemma incompleteTail_four:
  assumes "is_cont b" "is_cont c" "is_cont d"
  shows "incompleteTail (q @ [a, b, c, d]) = 0"
  using assms by (simp add: incompleteTail_def nth_append RuneStart_def)

text \<open>The tail of whole characters is complete.\<close>

lemma incompleteTail_whole:
  assumes "utf8_char c"
  shows "incompleteTail (p @ c) = 0"
proof -
  from utf8_char_Cons [OF assms] obtain d ds n lo hi where c: "c = d # ds" "utf8_lead d = Some (n, lo, hi)"
    "length ds + 1 = n" "list_all is_cont ds" by blast
  show ?thesis
  proof (cases "length c \<le> 3")
    case True
    with c utf8_char_full [OF assms] utf8_lead_start [of d] show ?thesis
      using incompleteTail_start [of c p] by auto
  next
    case False
    with c utf8_lead_bounds [OF c(2)] obtain x y z where "ds = [x, y, z]"
      by (cases ds; cases "tl ds"; cases "tl (tl ds)"; cases "tl (tl (tl ds))") auto
    with c show ?thesis using incompleteTail_four by auto
  qed
qed

text \<open>
  Cutting a prefix of a valid stream keeps whole characters in front of the cut, and behind it
  the start of the next one.
\<close>

lemma cut_prefix_valid:
  assumes "valid_utf8 (p @ q)"
  shows "valid_utf8 (take (length p - incompleteTail p) p) \<and> valid_utf8 (drop (length p - incompleteTail p) p @ q)"
proof -
  from assms obtain cs where "list_all utf8_char cs" "concat cs = p @ q" by (auto simp: valid_utf8_chars)
  from valid_prefix_split [OF this] obtain ds t where p: "p = concat ds @ t" "list_all utf8_char ds"
    and t: "t = [] \<or> (\<exists>u. u \<noteq> [] \<and> utf8_char (t @ u))" by blast
  have tail: "incompleteTail p = length t"
  proof (cases "t = []")
    case True
    show ?thesis
    proof (cases ds rule: rev_cases)
      case Nil
      with True p show ?thesis by (simp add: incompleteTail_def)
    next
      case (snoc es e)
      with True p show ?thesis using incompleteTail_whole [of e "concat es"] by simp
    qed
  next
    case False
    with t obtain u where "u \<noteq> []" "utf8_char (t @ u)" by blast
    from proper_prefix_not_full [OF this(2) False this(1)] p show ?thesis
      using incompleteTail_start [of t "concat ds"] False by simp
  qed
  have front: "valid_utf8 (concat ds)" using p(2) by (auto simp: valid_utf8_chars)
  moreover have "valid_utf8 (t @ q)"
    using valid_utf8_suffix [OF front, of "t @ q"] assms p(1) by simp
  moreover have "length p - length t = length (concat ds)" using p(1) by simp
  ultimately show ?thesis unfolding tail by (simp add: p(1))
qed

section \<open>What the intervals add up to\<close>

fun intervals :: "(rat \<Rightarrow> rat) \<Rightarrow> rat \<Rightarrow> int list \<Rightarrow> rat \<times> int list" where
  "intervals fl carry [] = (carry, [])"
| "intervals fl carry (g # gs) =
     (case round_ms fl carry g of (carry1, ms) \<Rightarrow>
        (case intervals fl carry1 gs of (carry2, mss) \<Rightarrow> (carry2, ms # mss)))"

lemma math_round_error: "\<bar>x - of_int (math_round x)\<bar> \<le> 1 / 2"
proof (cases "x \<ge> 0")
  case True
  have "of_int \<lfloor>x + 1 / 2\<rfloor> \<le> x + 1 / 2" "x + 1 / 2 < of_int \<lfloor>x + 1 / 2\<rfloor> + 1" by linarith+
  then show ?thesis using True by (simp only: math_round_def if_True)
next
  case False
  have "of_int \<lfloor>1 / 2 - x\<rfloor> \<le> 1 / 2 - x" "1 / 2 - x < of_int \<lfloor>1 / 2 - x\<rfloor> + 1" by linarith+
  then show ?thesis using False by (simp only: math_round_def if_False of_int_minus)
qed

text \<open>A rounding that is off by at most \<open>d\<close> on the numbers that occur here.\<close>

definition rounds_within :: "rat \<Rightarrow> (rat \<Rightarrow> rat) \<Rightarrow> bool" where
  "rounds_within d fl \<longleftrightarrow> 0 \<le> d \<and> d \<le> 1 / 4 \<and> (\<forall>x. \<bar>x\<bar> \<le> 4096 \<longrightarrow> \<bar>fl x - x\<bar> \<le> d)"

lemma duration_seconds_error:
  assumes "rounds_within d fl" "0 \<le> gap" "gap \<le> maxIdleTime"
  shows "\<bar>duration_seconds fl gap - of_int gap / 1000000000\<bar> \<le> 2 * d"
proof -
  define q where "q = gap div 1000000000"
  define r where "r = gap mod 1000000000"
  have flx: "\<bar>fl x - x\<bar> \<le> d" if "\<bar>x\<bar> \<le> 4096" for x using assms(1) that by (simp add: rounds_within_def)
  have d: "0 \<le> d" "d \<le> 1 / 4" using assms(1) by (auto simp: rounds_within_def)
  have q: "0 \<le> q" "q \<le> 2" using assms(2,3) by (auto simp: maxIdleTime_def q_def)
  have r: "0 \<le> r" "r < 1000000000" by (simp_all add: r_def)
  have "gap = 1000000000 * q + r" by (simp add: q_def r_def)
  then have gap: "(of_int gap :: rat) = 1000000000 * of_int q + of_int r" by simp
  have tr: "trunc_div gap 1000000000 = q" "trunc_rem gap 1000000000 = r"
    using assms(2) by (auto simp: trunc_div_def trunc_rem_def sgn_if q_def r_def)
  define n where "n = (of_int r / 1000000000 :: rat)"
  have n: "0 \<le> n" "n \<le> 1" using r by (auto simp: n_def)
  have f1: "\<bar>fl n - n\<bar> \<le> d" using n by (intro flx) linarith
  have q': "(0 :: rat) \<le> of_int q" "of_int q \<le> (2 :: rat)" using q by simp_all
  have "\<bar>of_int q + fl n\<bar> \<le> 4096" using f1 n d q' by linarith
  from flx [OF this] f1 have "\<bar>duration_seconds fl gap - (of_int q + n)\<bar> \<le> 2 * d"
    unfolding duration_seconds_def tr n_def [symmetric] by linarith
  moreover have "of_int q + n = of_int gap / 1000000000" by (simp add: gap n_def)
  ultimately show ?thesis by simp
qed

lemma round_ms_error:
  assumes fl: "rounds_within d fl" and gap: "0 \<le> gap" "gap \<le> maxIdleTime" and c: "\<bar>carry\<bar> \<le> 1"
    and run: "round_ms fl carry gap = (carry', ms)"
  shows "\<bar>carry'\<bar> \<le> 1 / 2 + d" "\<bar>carry' + of_int ms - (carry + of_int gap / 1000000)\<bar> \<le> 2003 * d"
proof -
  have flx: "\<bar>fl x - x\<bar> \<le> d" if "\<bar>x\<bar> \<le> 4096" for x using fl that by (simp add: rounds_within_def)
  have d: "0 \<le> d" "d \<le> 1 / 4" using fl by (auto simp: rounds_within_def)
  define sec where "sec = duration_seconds fl gap"
  define m where "m = fl (sec * 1000)"
  define x where "x = fl (carry + m)"
  have r: "carry' = fl (x - of_int ms)" "ms = math_round x"
    using run by (auto simp: round_ms_def Let_def sec_def m_def x_def)
  have g: "0 \<le> (of_int gap / 1000000000 :: rat)" "(of_int gap / 1000000000 :: rat) \<le> 2"
    using gap by (auto simp: maxIdleTime_def divide_le_eq)
  have sec: "\<bar>sec - of_int gap / 1000000000\<bar> \<le> 2 * d"
    unfolding sec_def by (rule duration_seconds_error [OF fl gap])
  then have s2: "\<bar>sec\<bar> \<le> 3" using g d by linarith
  have m: "\<bar>m - sec * 1000\<bar> \<le> d" unfolding m_def using s2 by (intro flx) linarith
  have x: "\<bar>x - (carry + m)\<bar> \<le> d" unfolding x_def using m s2 c d by (intro flx) linarith
  have rd: "\<bar>x - of_int ms\<bar> \<le> 1 / 2" unfolding r(2) by (rule math_round_error)
  have c': "\<bar>carry' - (x - of_int ms)\<bar> \<le> d" unfolding r(1) using rd by (intro flx) linarith
  show "\<bar>carry'\<bar> \<le> 1 / 2 + d" using c' rd by linarith
  have "\<bar>sec * 1000 - of_int gap / 1000000\<bar> \<le> 2000 * d"
  proof -
    have "sec * 1000 - of_int gap / 1000000 = 1000 * (sec - of_int gap / 1000000000)" by simp
    then show ?thesis using sec by (simp only: abs_mult)
  qed
  with m x c' show "\<bar>carry' + of_int ms - (carry + of_int gap / 1000000)\<bar> \<le> 2003 * d" by linarith
qed

lemma intervals_error:
  assumes fl: "rounds_within d fl" and "\<forall>g \<in> set gs. 0 \<le> g \<and> g \<le> maxIdleTime" "\<bar>carry\<bar> \<le> 3 / 4"
    and "intervals fl carry gs = (carry', mss)"
  shows "\<bar>carry'\<bar> \<le> 3 / 4 \<and>
    \<bar>carry' + of_int (sum_list mss) - (carry + of_int (sum_list gs) / 1000000)\<bar> \<le> of_nat (length gs) * (2003 * d)"
  using assms(2-)
proof (induction gs arbitrary: carry mss)
  case (Cons g gs)
  obtain c1 ms where r: "round_ms fl carry g = (c1, ms)" by (cases "round_ms fl carry g")
  obtain mss' where i: "intervals fl c1 gs = (carry', mss')" "mss = ms # mss'"
    using Cons.prems(3) r by (auto split: prod.splits)
  have d: "d \<le> 1 / 4" using fl by (simp add: rounds_within_def)
  have e: "\<bar>c1\<bar> \<le> 1 / 2 + d" "\<bar>c1 + of_int ms - (carry + of_int g / 1000000)\<bar> \<le> 2003 * d"
    using round_ms_error [OF fl _ _ _ r] Cons.prems by auto
  have "\<bar>c1\<bar> \<le> 3 / 4" using e(1) d by linarith
  with Cons.IH [OF _ this i(1)] Cons.prems(1)
  have IH: "\<bar>carry'\<bar> \<le> 3 / 4" "\<bar>carry' + of_int (sum_list mss') - (c1 + of_int (sum_list gs) / 1000000)\<bar> \<le> of_nat (length gs) * (2003 * d)"
    by auto
  have "of_nat (length (g # gs)) * (2003 * d) = of_nat (length gs) * (2003 * d) + 2003 * d" by (simp add: algebra_simps)
  moreover have "(of_int (sum_list (g # gs)) / 1000000 :: rat) = of_int g / 1000000 + of_int (sum_list gs) / 1000000"
    by (simp add: add_divide_distrib)
  moreover have "(of_int (sum_list mss) :: rat) = of_int ms + of_int (sum_list mss')" by (simp add: i(2))
  ultimately show ?case using IH e(2) by linarith
qed simp

text \<open>
  The intervals written to a recording do not drift: over any number of events their sum is
  within a millisecond of the time that passed, idle time cut at two seconds, apart from the
  error of the floating-point operations, of which one event has about two thousand times the
  unit of a number of this size.
\<close>

theorem intervals_do_not_drift:
  assumes "rounds_within d fl" "\<forall>g \<in> set gs. 0 \<le> g \<and> g \<le> maxIdleTime"
    and "intervals fl 0 gs = (carry, mss)"
  shows "\<bar>of_int (sum_list mss) - of_int (sum_list gs) / 1000000\<bar> \<le> 1 + of_nat (length gs) * (2003 * d)"
  using intervals_error [OF assms(1,2) _ assms(3)] by (simp add: abs_le_iff) linarith

theorem intervals_do_not_drift_witness:
  "\<bar>of_int (sum_list (snd (intervals (\<lambda>x. x) 0 [1500000, 1300000]))) - of_int (sum_list [1500000, 1300000]) / (1000000 :: rat)\<bar>
     \<le> 1 + of_nat (length [1500000, 1300000 :: int]) * (2003 * 0)"
  by (rule intervals_do_not_drift [of 0 "\<lambda>x. x"])
    (auto simp: rounds_within_def maxIdleTime_def intro: prod.collapse [symmetric])

text \<open>
  An interval can come out malformed: a carry of exactly one half of a millisecond below,
  which an event half a millisecond after the last one leaves, and a next event at the same
  instant give a minus sign in the fraction.
\<close>

theorem interval_with_minus_sign:
  "\<exists>carry. roundInterval (\<lambda>x. x) 0 500000 = (carry, ''0.001'') \<and>
     snd (roundInterval (\<lambda>x. x) carry 0) = ''0.-01''"
  by (intro exI [of _ "- 1 / 2"])
    (simp add: roundInterval_def round_ms_def duration_seconds_def trunc_div_def trunc_rem_def math_round_def
      format_interval_def fmt_03d_def pad0_def itoa_def format_uint.simps digit_char_def Let_def,
      simp add: char_of_def bit_Suc_0_iff numeral_2_eq_2)

end
