(* ===== verification/Recorder.thy ===== *)
theory Recorder
  imports Cast_Format "HOL-Library.Sublist"
begin

text \<open>
  The recorder of a session, \<^verbatim>\<open>internal/recording/recorder.go\<close>. What it writes goes through the
  gzip writer of the Go library to a file and to an optional sink. The compressor is not
  modelled: with every operation on it comes the list of chunks it hands on at that point, each
  with what became of it, whether the sink took it and how many bytes the file took.
\<close>

record gz_chunk =
  gzData :: bytes
  gzSinkOk :: bool
  gzFileTook :: nat

record recorder =
  rPath :: string
  rMaxSize :: nat
  rFile :: bytes
  rWritten :: nat
  rHasSink :: bool
  rTeeOn :: bool
  rSinkGot :: "bytes list"
  rLast :: int
  rCarry :: rat
  rPartial :: "string \<Rightarrow> bytes"
  rExit :: "int option"
  rDirty :: bool
  rClosed :: bool
  rText :: bytes
  rEvents :: "(string \<times> bytes) list"

text \<open>\<open>rText\<close> is all text given to the compressor, \<open>rEvents\<close> the events in it, \<open>rSinkGot\<close> what the sink took.\<close>

definition defaultMaxSize :: nat where "defaultMaxSize = 52428800"

section \<open>Writing\<close>

text \<open>\<^verbatim>\<open>sinkTee.Write\<close> and \<^verbatim>\<open>countingWriter.Write\<close>.\<close>

definition counting_write :: "recorder \<Rightarrow> gz_chunk \<Rightarrow> recorder" where
  "counting_write r k =
     (let n = min (gzFileTook k) (length (gzData k)) in
      r\<lparr>rFile := rFile r @ take n (gzData k), rWritten := rWritten r + n\<rparr>)"

definition tee_write :: "recorder \<Rightarrow> gz_chunk \<Rightarrow> recorder" where
  "tee_write r k =
     counting_write
       (if \<not> rTeeOn r then r
        else if gzSinkOk k then r\<lparr>rSinkGot := rSinkGot r @ [gzData k]\<rparr>
        else r\<lparr>rTeeOn := False\<rparr>) k"

definition gz_out :: "recorder \<Rightarrow> gz_chunk list \<Rightarrow> recorder" where
  "gz_out r ks = foldl tee_write r ks"

definition rec_emit :: "(rat \<Rightarrow> rat) \<Rightarrow> recorder \<Rightarrow> int \<times> gz_chunk list \<Rightarrow> string \<Rightarrow> bytes \<Rightarrow> recorder" where
  "rec_emit fl r t typ data =
     (let now = fst t; gap = min (now - rLast r) maxIdleTime in
      case roundInterval fl (rCarry r) gap of (carry, interval) \<Rightarrow>
        gz_out (r\<lparr>rLast := now, rCarry := carry, rText := rText r @ event_line interval typ data,
                  rEvents := rEvents r @ [(typ, data)], rDirty := True\<rparr>) (snd t))"

section \<open>Operations\<close>

text \<open>The times and compressor outputs of the up to three events \<^verbatim>\<open>closeLocked\<close> writes, and of its close.\<close>

record close_io =
  ioOut :: "int \<times> gz_chunk list"
  ioIn :: "int \<times> gz_chunk list"
  ioExit :: "int \<times> gz_chunk list"
  ioGzClose :: "gz_chunk list"

definition flush_partial :: "(rat \<Rightarrow> rat) \<Rightarrow> int \<times> gz_chunk list \<Rightarrow> string \<Rightarrow> recorder \<Rightarrow> recorder" where
  "flush_partial fl t typ r = (if rPartial r typ = [] then r else rec_emit fl r t typ (rPartial r typ))"

definition closeLocked :: "(rat \<Rightarrow> rat) \<Rightarrow> close_io \<Rightarrow> recorder \<Rightarrow> recorder" where
  "closeLocked fl io r =
     (if rClosed r then r
      else
        let r1 = flush_partial fl (ioOut io) ''o'' (r\<lparr>rClosed := True\<rparr>);
            r2 = flush_partial fl (ioIn io) ''i'' r1;
            r3 = (case rExit r2 of None \<Rightarrow> r2 | Some c \<Rightarrow> rec_emit fl r2 (ioExit io) ''x'' (itoa c))
        in gz_out r3 (ioGzClose io))"

text \<open>The second part tells whether the size limit was hit and \<^verbatim>\<open>onLimit\<close> is called.\<close>

definition rec_event ::
    "(rat \<Rightarrow> rat) \<Rightarrow> close_io \<Rightarrow> int \<times> gz_chunk list \<Rightarrow> string \<Rightarrow> bytes \<Rightarrow> recorder \<Rightarrow> recorder \<times> bool"
where
  "rec_event fl io t typ data0 r =
     (if rClosed r then (r, False)
      else if rWritten r < rMaxSize r then
        (let data = rPartial r typ @ data0; cut = length data - incompleteTail data in
         (rec_emit fl (r\<lparr>rPartial := (rPartial r)(typ := drop cut data)\<rparr>) t typ (take cut data), False))
      else (closeLocked fl io r, True))"

definition RecordOutput where "RecordOutput fl io t data r = rec_event fl io t ''o'' data r"
definition RecordInput where "RecordInput fl io t data r = rec_event fl io t ''i'' data r"
definition RecordResize where
  "RecordResize fl io t w h r = rec_event fl io t ''r'' (itoa w @ ''x'' @ itoa h) r"

definition RecordExit :: "int \<Rightarrow> recorder \<Rightarrow> recorder" where
  "RecordExit status r = (if rClosed r then r else r\<lparr>rExit := Some status\<rparr>)"

text \<open>One tick of \<^verbatim>\<open>flushLoop\<close>; \<^const>\<open>None\<close> when the loop ends.\<close>

definition flush_tick :: "gz_chunk list \<Rightarrow> recorder \<Rightarrow> recorder option" where
  "flush_tick ks r =
     (if rClosed r then None
      else if rDirty r then Some ((gz_out r ks)\<lparr>rDirty := False\<rparr>) else Some r)"

section \<open>Opening\<close>

datatype rec_new_error = RecNoSpace disk_error | RecCreate | RecRetention | RecHeader | RecFlush

text \<open>
  \<^verbatim>\<open>New\<close>: the answers of the file system, and what the compressor put out for the header line. A
  failure after the file was created removes it. The line is \<^verbatim>\<open>json.Encode\<close> of the header, where
  empty fields are left out.
\<close>

definition json_field :: "string \<Rightarrow> string \<Rightarrow> string" where
  "json_field k v = marshalEventData k @ '':'' @ v"

definition opt_field :: "string \<Rightarrow> string \<Rightarrow> string list" where
  "opt_field k v = (if v = '''' then [] else [json_field k (marshalEventData v)])"

definition header_line :: "int \<Rightarrow> rec_options \<Rightarrow> bytes" where
  "header_line now opts =
     ''{'' @ join_with '',''
       ([json_field ''version'' ''3'',
         json_field ''term'' (''{'' @ join_with '',''
           [json_field ''cols'' (itoa (optWidth opts)), json_field ''rows'' (itoa (optHeight opts)),
            json_field ''type'' (marshalEventData (if optTerm opts = '''' then ''xterm-256color'' else optTerm opts))] @ ''}'')]
        @ (if now = 0 then [] else [json_field ''timestamp'' (itoa now)])
        @ opt_field ''title'' (optTitle opts) @ opt_field ''session_id'' (optSessionID opts)
        @ opt_field ''user'' (optUser opts) @ opt_field ''principal'' (optPrincipal opts))
     @ ''}'' @ [CHR 0x0A]"

record new_io =
  niStat :: "(64 word \<times> 64 word) option"
  niTemp :: "string option"
  niRetention :: bool
  niHeader :: "gz_chunk list option"
  niFlush :: "gz_chunk list option"
  niUnix :: int
  niNow :: int

definition rec_new :: "new_io \<Rightarrow> rec_options \<Rightarrow> bool \<Rightarrow> (rec_new_error \<times> string option) + recorder" where
  "rec_new io opts sink =
     (case checkDiskSpace (niStat io) of Some e \<Rightarrow> Inl (RecNoSpace e, None)
      | None \<Rightarrow>
          (case niTemp io of None \<Rightarrow> Inl (RecCreate, None)
           | Some path \<Rightarrow>
               if \<not> niRetention io then Inl (RecRetention, Some path)
               else (case niHeader io of None \<Rightarrow> Inl (RecHeader, Some path)
                 | Some hs \<Rightarrow>
                     (case niFlush io of None \<Rightarrow> Inl (RecFlush, Some path)
                      | Some fs \<Rightarrow>
                          Inr (gz_out
                            \<lparr>rPath = path, rMaxSize = (if optMaxSize opts = 0 then defaultMaxSize else optMaxSize opts),
                             rFile = [], rWritten = 0, rHasSink = sink, rTeeOn = sink, rSinkGot = [],
                             rLast = niNow io, rCarry = 0, rPartial = (\<lambda>_. []), rExit = None, rDirty = False,
                             rClosed = False, rText = header_line (niUnix io) opts, rEvents = []\<rparr>
                            (hs @ fs))))))"

section \<open>What the compressor's output leaves alone\<close>

lemma gz_out_frame:
  "rEvents (gz_out r ks) = rEvents r" "rPartial (gz_out r ks) = rPartial r" "rClosed (gz_out r ks) = rClosed r"
  "rExit (gz_out r ks) = rExit r" "rText (gz_out r ks) = rText r" "rMaxSize (gz_out r ks) = rMaxSize r"
  "rPath (gz_out r ks) = rPath r" "rHasSink (gz_out r ks) = rHasSink r" "rDirty (gz_out r ks) = rDirty r"
  by (induction ks arbitrary: r; simp add: gz_out_def tee_write_def counting_write_def Let_def)+

lemma rec_emit_frame:
  "rEvents (rec_emit fl r t typ data) = rEvents r @ [(typ, data)]"
  "rPartial (rec_emit fl r t typ data) = rPartial r" "rClosed (rec_emit fl r t typ data) = rClosed r"
  "rExit (rec_emit fl r t typ data) = rExit r" "rMaxSize (rec_emit fl r t typ data) = rMaxSize r"
  "rPath (rec_emit fl r t typ data) = rPath r" "rHasSink (rec_emit fl r t typ data) = rHasSink r"
  by (simp_all add: rec_emit_def Let_def gz_out_frame split: prod.splits)

lemma flush_partial_frame:
  "rEvents (flush_partial fl t typ r) = rEvents r @ (if rPartial r typ = [] then [] else [(typ, rPartial r typ)])"
  "rPartial (flush_partial fl t typ r) = rPartial r" "rExit (flush_partial fl t typ r) = rExit r"
  "rClosed (flush_partial fl t typ r) = rClosed r"
  by (simp_all add: flush_partial_def rec_emit_frame)

lemma closeLocked_exit: "rExit (closeLocked fl io r) = rExit r"
  by (simp add: closeLocked_def Let_def gz_out_frame rec_emit_frame flush_partial_frame split: option.splits)

lemma closeLocked_events:
  assumes "\<not> rClosed r"
  shows "rEvents (closeLocked fl io r) = rEvents r
      @ (if rPartial r ''o'' = [] then [] else [(''o'', rPartial r ''o'')])
      @ (if rPartial r ''i'' = [] then [] else [(''i'', rPartial r ''i'')])
      @ (case rExit r of None \<Rightarrow> [] | Some c \<Rightarrow> [(''x'', itoa c)])"
    "rClosed (closeLocked fl io r)"
  using assms
  by (simp_all add: closeLocked_def Let_def gz_out_frame rec_emit_frame flush_partial_frame split: option.splits)

section \<open>Sequences of calls\<close>

text \<open>
  Every method holds the mutex of the recorder for all it does to it, so what concurrent callers
  do is a sequence of calls.
\<close>

datatype rec_call =
    RcOutput close_io "int \<times> gz_chunk list" bytes
  | RcInput close_io "int \<times> gz_chunk list" bytes
  | RcResize close_io "int \<times> gz_chunk list" int int
  | RcExit int
  | RcTick "gz_chunk list"
  | RcClose close_io

fun do_call :: "(rat \<Rightarrow> rat) \<Rightarrow> rec_call \<Rightarrow> recorder \<Rightarrow> recorder \<times> bool" where
  "do_call fl (RcOutput io t data) r = RecordOutput fl io t data r"
| "do_call fl (RcInput io t data) r = RecordInput fl io t data r"
| "do_call fl (RcResize io t w h) r = RecordResize fl io t w h r"
| "do_call fl (RcExit n) r = (RecordExit n r, False)"
| "do_call fl (RcTick ks) r = ((case flush_tick ks r of None \<Rightarrow> r | Some r' \<Rightarrow> r'), False)"
| "do_call fl (RcClose io) r = (closeLocked fl io r, False)"

text \<open>The state at the end, and how often \<^verbatim>\<open>onLimit\<close> was called.\<close>

fun run_calls :: "(rat \<Rightarrow> rat) \<Rightarrow> rec_call list \<Rightarrow> recorder \<Rightarrow> recorder \<times> nat" where
  "run_calls fl [] r = (r, 0)"
| "run_calls fl (c # cs) r =
     (case do_call fl c r of (r1, hit) \<Rightarrow>
        (case run_calls fl cs r1 of (r2, n) \<Rightarrow> (r2, (if hit then 1 else 0) + n)))"

definition stream_of :: "string \<Rightarrow> (string \<times> bytes) list \<Rightarrow> bytes" where
  "stream_of typ evs = concat (map snd (filter (\<lambda>e. fst e = typ) evs))"

fun sent_as :: "rec_call \<Rightarrow> (string \<times> bytes) option" where
  "sent_as (RcOutput io t data) = Some (''o'', data)"
| "sent_as (RcInput io t data) = Some (''i'', data)"
| "sent_as (RcResize io t w h) = Some (''r'', itoa w @ ''x'' @ itoa h)"
| "sent_as _ = None"

fun is_close :: "rec_call \<Rightarrow> bool" where
  "is_close (RcClose io) = True"
| "is_close _ = False"

text \<open>What the callers handed over, by event type.\<close>

definition given :: "string \<Rightarrow> rec_call list \<Rightarrow> bytes" where
  "given typ cs = stream_of typ (List.map_filter sent_as cs)"

lemma stream_of_append [simp]: "stream_of typ (xs @ ys) = stream_of typ xs @ stream_of typ ys"
  by (simp add: stream_of_def)

lemma stream_of_simps [simp]:
  "stream_of typ [] = []" "stream_of typ (e # es) = (if fst e = typ then snd e else []) @ stream_of typ es"
  by (simp_all add: stream_of_def)

lemma given_simps [simp]:
  "given typ [] = []"
  "given typ (c # cs) = (case sent_as c of Some e \<Rightarrow> if fst e = typ then snd e else [] | None \<Rightarrow> []) @ given typ cs"
  "given typ (cs @ ds) = given typ cs @ given typ ds"
  by (auto simp: given_def List.map_filter_def split: option.splits)

text \<open>What was recorded of a type, with the head of a character that waits for its rest.\<close>

definition taken :: "string \<Rightarrow> recorder \<Rightarrow> bytes" where
  "taken typ r = stream_of typ (rEvents r) @ rPartial r typ"

lemma rec_event_open:
  assumes "\<not> rClosed r" "rWritten r < rMaxSize r"
  shows "taken typ (fst (rec_event fl io t ty data r)) = taken typ r @ (if ty = typ then data else [])"
    "\<not> rClosed (fst (rec_event fl io t ty data r))" "\<not> snd (rec_event fl io t ty data r)"
    "rExit (fst (rec_event fl io t ty data r)) = rExit r"
  using assms by (simp_all add: rec_event_def Let_def rec_emit_frame taken_def del: take_append drop_append)

lemma rec_event_closed: "rClosed r \<Longrightarrow> rec_event fl io t ty data r = (r, False)"
  by (simp add: rec_event_def)

lemma rec_event_limit:
  assumes "\<not> rClosed r" "\<not> rWritten r < rMaxSize r"
  shows "rec_event fl io t ty data r = (closeLocked fl io r, True)"
  using assms by (simp add: rec_event_def)

lemma closeLocked_taken:
  assumes "\<not> rClosed r" "typ = ''o'' \<or> typ = ''i''"
  shows "stream_of typ (rEvents (closeLocked fl io r)) = taken typ r"
  using assms by (auto simp: closeLocked_events taken_def split: option.splits)

lemma flush_tick_frame:
  "rEvents (fst (do_call fl (RcTick ks) r)) = rEvents r" "rPartial (fst (do_call fl (RcTick ks) r)) = rPartial r"
  "rClosed (fst (do_call fl (RcTick ks) r)) = rClosed r" "rExit (fst (do_call fl (RcTick ks) r)) = rExit r"
  by (auto simp: flush_tick_def gz_out_frame)

lemmas record_defs = RecordOutput_def RecordInput_def RecordResize_def

lemma do_call_closed: "rClosed r \<Longrightarrow> do_call fl c r = (r, False)"
  by (cases c) (simp_all add: record_defs rec_event_closed RecordExit_def flush_tick_def closeLocked_def)

lemma run_calls_closed: "rClosed r \<Longrightarrow> run_calls fl cs r = (r, 0)"
  by (induction cs) (simp_all add: do_call_closed)

text \<open>A call on an open recorder leaves it open and takes what it is given, or closes it.\<close>

lemma do_call_open:
  assumes "\<not> rClosed r"
  obtains (kept) "\<not> rClosed (fst (do_call fl c r))" "\<not> snd (do_call fl c r)" "\<not> is_close c"
      "\<forall>typ. taken typ (fst (do_call fl c r)) = taken typ r @ given typ [c]"
  | (shut) io where "fst (do_call fl c r) = closeLocked fl io r" "snd (do_call fl c r) \<longleftrightarrow> \<not> is_close c"
proof (cases c)
  case (RcOutput io t d)
  then show ?thesis
    using that(1) that(2) [of io] assms
    by (cases "rWritten r < rMaxSize r") (auto simp: record_defs rec_event_open rec_event_limit)
next
  case (RcInput io t d)
  then show ?thesis
    using that(1) that(2) [of io] assms
    by (cases "rWritten r < rMaxSize r") (auto simp: record_defs rec_event_open rec_event_limit)
next
  case (RcResize io t w h)
  then show ?thesis
    using that(1) that(2) [of io] assms
    by (cases "rWritten r < rMaxSize r") (auto simp: record_defs rec_event_open rec_event_limit)
next
  case (RcExit n)
  then show ?thesis using that(1) assms by (simp add: RecordExit_def taken_def)
next
  case (RcTick ks)
  then show ?thesis using that(1) assms flush_tick_frame [of fl ks r] by (simp add: taken_def)
next
  case (RcClose io)
  then show ?thesis using that(2) [of io] by simp
qed

lemma run_calls_taken:
  assumes "\<not> rClosed r" "run_calls fl cs r = (r', n)" "typ = ''o'' \<or> typ = ''i''"
  shows "n \<le> 1 \<and> (if rClosed r' then \<exists>done rest. cs = done @ rest \<and> rest \<noteq> [] \<and>
             stream_of typ (rEvents r') = taken typ r @ given typ done \<and>
             (n = 0 \<longleftrightarrow> is_close (hd rest))
           else n = 0 \<and> \<not> list_ex is_close cs \<and> taken typ r' = taken typ r @ given typ cs)"
  using assms(1,2)
proof (induction cs arbitrary: r n)
  case Nil
  then show ?case by simp
next
  case (Cons c cs)
  show ?case
  proof (rule do_call_open [OF Cons.prems(1), of fl c])
    assume k: "\<not> rClosed (fst (do_call fl c r))" "\<not> snd (do_call fl c r)" "\<not> is_close c"
      "\<forall>typ. taken typ (fst (do_call fl c r)) = taken typ r @ given typ [c]"
    with Cons.prems(2) have run: "run_calls fl cs (fst (do_call fl c r)) = (r', n)"
      by (simp split: prod.splits)
    note ih = Cons.IH [OF k(1) run]
    show ?case
    proof (cases "rClosed r'")
      case True
      with ih obtain "done" rest where d: "cs = done @ rest" "rest \<noteq> []" "n = 0 \<longleftrightarrow> is_close (hd rest)"
          "stream_of typ (rEvents r') = taken typ (fst (do_call fl c r)) @ given typ done" by auto
      then have "c # cs = (c # done) @ rest" "stream_of typ (rEvents r') = taken typ r @ given typ (c # done)"
        using k(4) by simp_all
      with d True ih show ?thesis by (metis (no_types))
    next
      case False
      with ih k show ?thesis by simp
    qed
  next
    fix io
    assume s: "fst (do_call fl c r) = closeLocked fl io r" "snd (do_call fl c r) \<longleftrightarrow> \<not> is_close c"
    have cl: "rClosed (closeLocked fl io r)" by (rule closeLocked_events(2) [OF Cons.prems(1)])
    with Cons.prems(2) s have "r' = closeLocked fl io r" "n = (if is_close c then 0 else 1)"
      by (auto simp: run_calls_closed split: prod.splits)
    with cl closeLocked_taken [OF Cons.prems(1) assms(3), of fl io] show ?case
      by (simp add: exI [of _ "[]"])
  qed
qed

section \<open>The text of a recording\<close>

lemma closeLocked_sink [simp]: "rHasSink (closeLocked fl io r) = rHasSink r"
  by (simp add: closeLocked_def Let_def flush_partial_def gz_out_frame rec_emit_frame split: option.splits)

lemma do_call_sink: "rHasSink (fst (do_call fl c r)) = rHasSink r"
  by (cases c)
    (simp_all add: record_defs rec_event_def RecordExit_def flush_tick_def Let_def rec_emit_frame gz_out_frame)

lemma run_calls_sink: "run_calls fl cs r = (r', n) \<Longrightarrow> rHasSink r' = rHasSink r"
proof (induction cs arbitrary: r n)
  case (Cons c cs)
  then show ?case using do_call_sink [of fl c r] by (auto split: prod.splits)
qed simp

text \<open>The text given to the compressor is the header line and a line for each event.\<close>

definition text_of :: "bytes \<Rightarrow> string list \<Rightarrow> (string \<times> bytes) list \<Rightarrow> bytes" where
  "text_of hdr ivs evs = hdr @ concat (map2 (\<lambda>iv e. event_line iv (fst e) (snd e)) ivs evs)"

definition text_ok :: "bytes \<Rightarrow> recorder \<Rightarrow> bool" where
  "text_ok hdr r \<longleftrightarrow> (\<exists>ivs. length ivs = length (rEvents r) \<and> rText r = text_of hdr ivs (rEvents r))"

lemma text_ok_gz_out [simp]: "text_ok hdr (gz_out r ks) = text_ok hdr r"
  by (simp add: text_ok_def gz_out_frame)

lemma text_ok_update [simp]:
  "text_ok hdr (r\<lparr>rClosed := b\<rparr>) = text_ok hdr r" "text_ok hdr (r\<lparr>rPartial := p\<rparr>) = text_ok hdr r"
  "text_ok hdr (r\<lparr>rExit := x\<rparr>) = text_ok hdr r" "text_ok hdr (r\<lparr>rDirty := b\<rparr>) = text_ok hdr r"
  by (simp_all add: text_ok_def)

lemma text_ok_emit: "text_ok hdr r \<Longrightarrow> text_ok hdr (rec_emit fl r t typ data)"
proof -
  assume "text_ok hdr r"
  then obtain ivs where ivs: "length ivs = length (rEvents r)" "rText r = text_of hdr ivs (rEvents r)"
    by (auto simp: text_ok_def)
  obtain carry iv where "roundInterval fl (rCarry r) (min (fst t - rLast r) maxIdleTime) = (carry, iv)"
    by (rule prod.exhaust)
  with ivs show ?thesis
    by (simp add: rec_emit_def Let_def)
      (simp add: text_ok_def text_of_def exI [of _ "ivs @ [iv]"])
qed

lemma text_ok_close: "text_ok hdr r \<Longrightarrow> text_ok hdr (closeLocked fl io r)"
  by (simp add: closeLocked_def Let_def flush_partial_def text_ok_emit split: option.splits)

lemma text_ok_call: "text_ok hdr r \<Longrightarrow> text_ok hdr (fst (do_call fl c r))"
  by (cases c)
    (simp_all add: record_defs rec_event_def RecordExit_def flush_tick_def Let_def text_ok_emit text_ok_close)

lemma text_ok_run: "text_ok hdr r \<Longrightarrow> run_calls fl cs r = (r', n) \<Longrightarrow> text_ok hdr r'"
proof (induction cs arbitrary: r n)
  case (Cons c cs)
  then show ?case using text_ok_call [of hdr r fl c] by (auto split: prod.splits)
qed simp

lemma rec_new_fresh:
  assumes "rec_new io opts sink = Inr r"
  shows "rEvents r = []" "rPartial r = (\<lambda>_. [])" "\<not> rClosed r" "rExit r = None"
    "rText r = header_line (niUnix io) opts" "rHasSink r = sink"
  using assms by (auto simp: rec_new_def gz_out_frame split: option.splits if_splits)

lemma text_ok_new: "rec_new io opts sink = Inr r \<Longrightarrow> text_ok (header_line (niUnix io) opts) r"
  by (simp add: text_ok_def text_of_def rec_new_fresh)

lemma new_taken: "rec_new io opts sink = Inr r \<Longrightarrow> taken typ r = []"
  by (simp add: taken_def rec_new_fresh)

lemma recorded_prefix:
  assumes "rec_new io opts sink = Inr r" "run_calls fl cs r = (r', n)" "typ = ''o'' \<or> typ = ''i''"
  shows "prefix (stream_of typ (rEvents r')) (given typ cs)"
proof -
  note t = run_calls_taken [OF rec_new_fresh(3) [OF assms(1)] assms(2,3), unfolded new_taken [OF assms(1)]]
  show ?thesis
  proof (cases "rClosed r'")
    case True
    with t obtain "done" rest where "cs = done @ rest" "stream_of typ (rEvents r') = given typ done" by auto
    then show ?thesis by simp
  next
    case False
    with t have "given typ cs = stream_of typ (rEvents r') @ rPartial r' typ" by (simp add: taken_def)
    then show ?thesis by simp
  qed
qed

lemma recorded_all:
  assumes "rec_new io opts sink = Inr r" "run_calls fl (ds @ [RcClose cio]) r = (r', 0)"
    and "\<not> list_ex is_close ds" "typ = ''o'' \<or> typ = ''i''"
  shows "stream_of typ (rEvents r') = given typ ds"
proof -
  note t = run_calls_taken [OF rec_new_fresh(3) [OF assms(1)] assms(2,4), unfolded new_taken [OF assms(1)]]
  then obtain "done" rest where d: "ds @ [RcClose cio] = done @ rest" "rest \<noteq> []" "is_close (hd rest)"
      "stream_of typ (rEvents r') = given typ done" by (auto split: if_splits)
  have "done = ds"
  proof -
    have "hd rest \<notin> set ds" using d(3) assms(3) by (auto simp: list_ex_iff)
    moreover from d(1,2) obtain ys where "rest = ys @ [RcClose cio]" "ds = done @ ys"
      by (cases rest rule: rev_cases) auto
    ultimately show ?thesis by (cases ys) auto
  qed
  with d show ?thesis by simp
qed

text \<open>C9.
  A recording holds what the session did. Whatever calls are made on a new recorder, the limit is
  reported at most once, the text is the header line and one line per event, and the output (and
  likewise the input) in the events is a prefix of what the callers handed over. When the limit was
  not reached, closing the recorder leaves every byte of both streams in it, in order.
\<close>
theorem recording_keeps_streams:
  assumes "rec_new io opts sink = Inr r" "run_calls fl cs r = (r', n)"
  shows "n \<le> 1
    \<and> (\<exists>ivs. length ivs = length (rEvents r') \<and>
         rText r' = text_of (header_line (niUnix io) opts) ivs (rEvents r'))
    \<and> (\<forall>typ \<in> {''o'', ''i''}. prefix (stream_of typ (rEvents r')) (given typ cs) \<and>
         (\<forall>ds cio. n = 0 \<and> cs = ds @ [RcClose cio] \<and> \<not> list_ex is_close ds \<longrightarrow>
            stream_of typ (rEvents r') = given typ ds))"
  using run_calls_taken [OF rec_new_fresh(3) [OF assms(1)] assms(2), of "''o''"]
    text_ok_run [OF text_ok_new [OF assms(1)] assms(2)] recorded_prefix [OF assms]
    recorded_all [OF assms(1)] assms(2)
  by (auto simp: text_ok_def)

section \<open>Replaying a recording\<close>

text \<open>A stream of whole characters is cut into events of whole characters.\<close>

definition whole_chars :: "string \<Rightarrow> recorder \<Rightarrow> bytes \<Rightarrow> bool" where
  "whole_chars typ r rest \<longleftrightarrow>
     (\<forall>e \<in> set (rEvents r). fst e = typ \<longrightarrow> valid_utf8 (snd e)) \<and> valid_utf8 (rPartial r typ @ rest)"

lemma whole_chars_event:
  assumes "whole_chars typ r ((if ty = typ then data else []) @ rest)" "\<not> rClosed r"
    and "\<not> snd (rec_event fl io t ty data r)"
  shows "whole_chars typ (fst (rec_event fl io t ty data r)) rest"
proof (cases "ty = typ")
  case True
  with assms(1) have "valid_utf8 ((rPartial r typ @ data) @ rest)" by (simp add: whole_chars_def)
  from cut_prefix_valid [OF this] True assms show ?thesis
    by (auto simp: rec_event_def Let_def rec_emit_frame whole_chars_def simp del: take_append drop_append)
next
  case False
  with assms show ?thesis
    by (auto simp: rec_event_def Let_def rec_emit_frame whole_chars_def)
qed

lemma whole_chars_call:
  assumes "whole_chars typ r (given typ [c] @ rest)" "\<not> rClosed r" "\<not> is_close c" "\<not> snd (do_call fl c r)"
  shows "whole_chars typ (fst (do_call fl c r)) rest"
proof (cases c)
  case (RcExit x)
  with assms show ?thesis by (simp add: RecordExit_def whole_chars_def)
next
  case (RcTick ks)
  with assms flush_tick_frame [of fl ks r] show ?thesis by (simp add: whole_chars_def)
next
  case (RcOutput io t d)
  with assms show ?thesis by (auto simp: record_defs intro!: whole_chars_event cong: if_cong)
next
  case (RcInput io t d)
  with assms show ?thesis by (auto simp: record_defs intro!: whole_chars_event cong: if_cong)
next
  case (RcResize io t w h)
  with assms show ?thesis by (auto simp: record_defs intro!: whole_chars_event cong: if_cong)
qed (use assms in simp)

lemma whole_chars_close:
  assumes "whole_chars typ r []" "\<not> rClosed r" "typ = ''o'' \<or> typ = ''i''"
  shows "\<forall>e \<in> set (rEvents (closeLocked fl io r)). fst e = typ \<longrightarrow> valid_utf8 (snd e)"
  using assms by (auto simp: closeLocked_events whole_chars_def split: option.splits)

lemma whole_chars_run:
  assumes "whole_chars typ r (given typ ds)" "\<not> rClosed r" "\<not> list_ex is_close ds" "typ = ''o'' \<or> typ = ''i''"
    and "run_calls fl (ds @ [RcClose cio]) r = (r', 0)"
  shows "\<forall>e \<in> set (rEvents r'). fst e = typ \<longrightarrow> valid_utf8 (snd e)"
  using assms(1,2,3,5)
proof (induction ds arbitrary: r)
  case Nil
  then show ?case using whole_chars_close [of "typ" r fl cio] assms(4) by simp
next
  case (Cons c ds)
  from Cons.prems have nolim: "\<not> snd (do_call fl c r)" and
    run: "run_calls fl (ds @ [RcClose cio]) (fst (do_call fl c r)) = (r', 0)"
    by (auto split: prod.splits if_splits)
  from Cons.prems(3) have nc: "\<not> is_close c" "\<not> list_ex is_close ds" by simp_all
  from Cons.prems(1) have w: "whole_chars typ r (given typ [c] @ given typ ds)" by simp
  show ?case
    by (rule do_call_open [OF Cons.prems(2), of fl c])
      (use nolim nc Cons.IH [OF whole_chars_call [OF w Cons.prems(2) nc(1) nolim] _ nc(2) run] in auto)
qed

text \<open>What a player reads of the events of a type.\<close>

definition replay :: "string \<Rightarrow> (string \<times> bytes) list \<Rightarrow> bytes" where
  "replay typ evs = concat (map (\<lambda>e. json_read (json_body (snd e))) (filter (\<lambda>e. fst e = typ) evs))"

lemma replay_valid:
  assumes "\<forall>e \<in> set evs. fst e = typ \<longrightarrow> valid_utf8 (snd e)"
  shows "replay typ evs = stream_of typ evs"
  using assms by (induction evs) (auto simp: replay_def json_read_body)

text \<open>C8.
  What is played back is what was shown. When the output of a session is UTF-8 and the size limit
  was not reached, the JSON strings of the closed recording read back as exactly the bytes of the
  session, though the reads of the terminal may have cut characters in two. The same for input.
\<close>
theorem replay_equals_stream:
  assumes "rec_new io opts sink = Inr r" "run_calls fl (ds @ [RcClose cio]) r = (r', 0)" "\<not> list_ex is_close ds"
    and "typ = ''o'' \<or> typ = ''i''" "valid_utf8 (given typ ds)"
  shows "replay typ (rEvents r') = given typ ds"
proof -
  have "whole_chars typ r (given typ ds)" using assms(5) by (simp add: whole_chars_def rec_new_fresh [OF assms(1)])
  from whole_chars_run [OF this rec_new_fresh(3) [OF assms(1)] assms(3,4,2)]
  show ?thesis
    using recorded_all [OF assms(1-4)] by (simp add: replay_valid)
qed

section \<open>The exit status\<close>

lemma run_calls_no_exit_event:
  assumes "\<not> rClosed r" "''x'' \<notin> fst ` set (rEvents r)" "run_calls fl cs r = (r', n)"
  shows "\<exists>evs. rEvents r' = evs @ (if rClosed r' then (case rExit r' of None \<Rightarrow> [] | Some c \<Rightarrow> [(''x'', itoa c)]) else [])
    \<and> ''x'' \<notin> fst ` set evs"
  using assms
proof (induction cs arbitrary: r n)
  case (Cons c cs)
  obtain r1 hit where c: "do_call fl c r = (r1, hit)" by (rule prod.exhaust)
  show ?case
  proof (rule do_call_open [OF Cons.prems(1), of fl c])
    assume k: "\<not> rClosed (fst (do_call fl c r))" "\<not> snd (do_call fl c r)" "\<not> is_close c"
    have "''x'' \<notin> fst ` set (rEvents r1)"
      using Cons.prems(2) k flush_tick_frame(1) [of fl _ r] c
      by (cases c)
        (auto simp: record_defs rec_event_def RecordExit_def Let_def rec_emit_frame Cons.prems(1) split: if_splits)
    with Cons.IH [of r1] k c Cons.prems(3) show ?case by (auto split: prod.splits)
  next
    fix io
    assume s: "fst (do_call fl c r) = closeLocked fl io r"
    have cl: "rClosed (closeLocked fl io r)" by (rule closeLocked_events(2) [OF Cons.prems(1)])
    with Cons.prems(3) s have r': "r' = closeLocked fl io r" by (auto simp: run_calls_closed split: prod.splits)
    with cl Cons.prems(1,2) closeLocked_exit [of fl io r] show ?case
      by (auto simp: closeLocked_events intro!: exI [of _ "rEvents r
        @ (if rPartial r ''o'' = [] then [] else [(''o'', rPartial r ''o'')])
        @ (if rPartial r ''i'' = [] then [] else [(''i'', rPartial r ''i'')])"])
  qed
qed simp

text \<open>The exit status is the last event of a recording and there is no other exit event: a closed
  recording ends with the status the session reported last, if it reported one, and an open one has none.
\<close>
theorem exit_event_is_last:
  assumes "rec_new io opts sink = Inr r" "run_calls fl cs r = (r', n)"
  shows "\<exists>evs. rEvents r' =
      evs @ (if rClosed r' then (case rExit r' of None \<Rightarrow> [] | Some c \<Rightarrow> [(''x'', itoa c)]) else [])
    \<and> ''x'' \<notin> fst ` set evs"
  using run_calls_no_exit_event [OF rec_new_fresh(3) [OF assms(1)] _ assms(2)] rec_new_fresh(1) [OF assms(1)] by simp

section \<open>The sink\<close>

text \<open>A recorder with all about its sink left out.\<close>

definition no_sink :: "recorder \<Rightarrow> recorder" where
  "no_sink r = r\<lparr>rTeeOn := False, rSinkGot := []\<rparr>"

lemma no_sink_frame [simp]:
  "rClosed (no_sink r) = rClosed r" "rWritten (no_sink r) = rWritten r" "rMaxSize (no_sink r) = rMaxSize r"
  "rPartial (no_sink r) = rPartial r" "rExit (no_sink r) = rExit r" "rDirty (no_sink r) = rDirty r"
  "rLast (no_sink r) = rLast r" "rCarry (no_sink r) = rCarry r" "rText (no_sink r) = rText r"
  "rEvents (no_sink r) = rEvents r" "rFile (no_sink r) = rFile r"
  by (simp_all add: no_sink_def)

lemma no_sink_update [simp]:
  "(no_sink r)\<lparr>rClosed := b\<rparr> = no_sink (r\<lparr>rClosed := b\<rparr>)" "(no_sink r)\<lparr>rPartial := p\<rparr> = no_sink (r\<lparr>rPartial := p\<rparr>)"
  "(no_sink r)\<lparr>rExit := x\<rparr> = no_sink (r\<lparr>rExit := x\<rparr>)" "(no_sink r)\<lparr>rDirty := b\<rparr> = no_sink (r\<lparr>rDirty := b\<rparr>)"
  "(no_sink r)\<lparr>rLast := l, rCarry := ca, rText := tx, rEvents := es, rDirty := b\<rparr> =
     no_sink (r\<lparr>rLast := l, rCarry := ca, rText := tx, rEvents := es, rDirty := b\<rparr>)"
  by (simp_all add: no_sink_def)

lemma no_sink_gz_out [simp]: "gz_out (no_sink r) ks = no_sink (gz_out r ks)"
proof (induction ks arbitrary: r)
  case (Cons k ks)
  have "tee_write (no_sink r) k = no_sink (tee_write r k)"
    by (simp add: tee_write_def counting_write_def no_sink_def Let_def)
  with Cons show ?case by (simp add: gz_out_def)
qed (simp add: gz_out_def)

lemma no_sink_emit [simp]: "rec_emit fl (no_sink r) t ty data = no_sink (rec_emit fl r t ty data)"
  by (simp add: rec_emit_def Let_def split: prod.splits)

lemma no_sink_close [simp]: "closeLocked fl io (no_sink r) = no_sink (closeLocked fl io r)"
  by (simp add: closeLocked_def flush_partial_def Let_def split: option.splits)

lemma no_sink_call: "do_call fl c (no_sink r) = map_prod no_sink id (do_call fl c r)"
  by (cases c) (simp_all add: record_defs rec_event_def RecordExit_def flush_tick_def Let_def)

lemma no_sink_run: "run_calls fl cs (no_sink r) = map_prod no_sink id (run_calls fl cs r)"
proof (induction cs arbitrary: r)
  case (Cons c cs)
  obtain r1 hit where "do_call fl c r = (r1, hit)" by (rule prod.exhaust)
  moreover obtain r2 n where "run_calls fl cs r1 = (r2, n)" by (rule prod.exhaust)
  ultimately show ?case by (simp add: no_sink_call Cons)
qed simp

text \<open>C35.
  The sink never affects the recording. Run the same calls with the same times and compressor output
  with no sink and with one that may fail at any write: the file, the events, the text, what waits in
  the recorder, the size it counts and the calls of \<^verbatim>\<open>onLimit\<close> are the same.
\<close>
theorem sink_never_affects_file:
  "fst (run_calls fl cs (no_sink r)) = no_sink (fst (run_calls fl cs r)) \<and>
   rFile (fst (run_calls fl cs (no_sink r))) = rFile (fst (run_calls fl cs r)) \<and>
   rText (fst (run_calls fl cs (no_sink r))) = rText (fst (run_calls fl cs r)) \<and>
   snd (run_calls fl cs (no_sink r)) = snd (run_calls fl cs r)"
  by (simp add: no_sink_run)

section \<open>What the sink receives\<close>

text \<open>The chunks the compressor puts out during a call, when each of its writes happens.\<close>

definition all_taken :: "gz_chunk list \<Rightarrow> bool" where
  "all_taken ks \<longleftrightarrow> list_all (\<lambda>k. length (gzData k) \<le> gzFileTook k) ks"

definition close_chunks :: "close_io \<Rightarrow> gz_chunk list" where
  "close_chunks io = snd (ioOut io) @ snd (ioIn io) @ snd (ioExit io) @ ioGzClose io"

fun call_chunks :: "rec_call \<Rightarrow> gz_chunk list" where
  "call_chunks (RcOutput io t d) = snd t @ close_chunks io"
| "call_chunks (RcInput io t d) = snd t @ close_chunks io"
| "call_chunks (RcResize io t w h) = snd t @ close_chunks io"
| "call_chunks (RcExit n) = []"
| "call_chunks (RcTick ks) = ks"
| "call_chunks (RcClose io) = close_chunks io"

lemma all_taken_append: "all_taken (xs @ ys) \<longleftrightarrow> all_taken xs \<and> all_taken ys"
  by (simp add: all_taken_def)

text \<open>The sink has every byte of the file, as long as no write to it failed.\<close>

definition sink_has_file :: "recorder \<Rightarrow> bool" where
  "sink_has_file r \<longleftrightarrow> (rTeeOn r \<longrightarrow> concat (rSinkGot r) = rFile r)"

lemma sink_gz_out:
  assumes "all_taken ks" "sink_has_file r"
  shows "sink_has_file (gz_out r ks)"
  using assms
proof (induction ks arbitrary: r)
  case (Cons k ks)
  then have "sink_has_file (tee_write r k)"
    by (auto simp: sink_has_file_def tee_write_def counting_write_def Let_def all_taken_def)
  with Cons show ?case by (simp add: gz_out_def all_taken_def)
qed (simp add: gz_out_def)

lemma sink_update [simp]:
  "sink_has_file (r\<lparr>rClosed := b\<rparr>) = sink_has_file r" "sink_has_file (r\<lparr>rPartial := p\<rparr>) = sink_has_file r"
  "sink_has_file (r\<lparr>rExit := x\<rparr>) = sink_has_file r" "sink_has_file (r\<lparr>rDirty := b\<rparr>) = sink_has_file r"
  "sink_has_file (r\<lparr>rLast := l\<rparr>) = sink_has_file r" "sink_has_file (r\<lparr>rCarry := ca\<rparr>) = sink_has_file r"
  "sink_has_file (r\<lparr>rText := tx\<rparr>) = sink_has_file r" "sink_has_file (r\<lparr>rEvents := es\<rparr>) = sink_has_file r"
  by (simp_all add: sink_has_file_def)

lemma sink_fresh: "rSinkGot r = [] \<Longrightarrow> rFile r = [] \<Longrightarrow> sink_has_file r"
  by (simp add: sink_has_file_def)

lemma sink_emit: "all_taken (snd t) \<Longrightarrow> sink_has_file r \<Longrightarrow> sink_has_file (rec_emit fl r t ty data)"
  by (simp add: rec_emit_def Let_def sink_gz_out split: prod.splits)

lemma sink_close:
  "all_taken (close_chunks io) \<Longrightarrow> sink_has_file r \<Longrightarrow> sink_has_file (closeLocked fl io r)"
  by (simp add: closeLocked_def Let_def flush_partial_def all_taken_append close_chunks_def sink_emit sink_gz_out split: option.splits)

lemma sink_call: "all_taken (call_chunks c) \<Longrightarrow> sink_has_file r \<Longrightarrow> sink_has_file (fst (do_call fl c r))"
  by (cases c) (simp_all add: record_defs rec_event_def RecordExit_def flush_tick_def Let_def all_taken_append
      sink_emit sink_close sink_gz_out)

lemma sink_run:
  "all_taken (concat (map call_chunks cs)) \<Longrightarrow> sink_has_file r \<Longrightarrow> run_calls fl cs r = (r', n) \<Longrightarrow> sink_has_file r'"
proof (induction cs arbitrary: r n)
  case (Cons c cs)
  from Cons.prems(1) have ks: "all_taken (call_chunks c)" "all_taken (concat (map call_chunks cs))"
    by (simp_all add: all_taken_append)
  obtain r1 hit where c: "do_call fl c r = (r1, hit)" by (rule prod.exhaust)
  moreover obtain m where "run_calls fl cs r1 = (r', m)"
    using Cons.prems(3) c by (auto split: prod.splits)
  ultimately show ?case using Cons.IH [OF ks(2)] sink_call [OF ks(1) Cons.prems(2), of fl] by simp
qed simp

lemma sink_new:
  assumes "rec_new io opts sink = Inr r"
    and "all_taken (case niHeader io of Some hs \<Rightarrow> hs | None \<Rightarrow> [])" "all_taken (case niFlush io of Some fs \<Rightarrow> fs | None \<Rightarrow> [])"
  shows "sink_has_file r"
  using assms
  by (auto simp: rec_new_def all_taken_append intro!: sink_gz_out [OF _ sink_fresh]
      split: option.splits if_splits)

text \<open>The sink receives the recording. When the file system took every write, a sink that no write failed
  on has received, chunk after chunk, exactly the bytes of the file.
\<close>
theorem sink_receives_the_file:
  assumes "rec_new io opts True = Inr r" "run_calls fl cs r = (r', n)" "rTeeOn r'"
    and "all_taken (case niHeader io of Some hs \<Rightarrow> hs | None \<Rightarrow> [])"
    and "all_taken (case niFlush io of Some fs \<Rightarrow> fs | None \<Rightarrow> [])" "all_taken (concat (map call_chunks cs))"
  shows "concat (rSinkGot r') = rFile r'"
  using sink_run [OF assms(6) sink_new [OF assms(1,4,5)] assms(2)] assms(3) by (simp add: sink_has_file_def)

section \<open>An example\<close>

text \<open>
  A recording of two reads that cut a character in two, and an exit status. The compressor hands
  on a chunk when the header is flushed and the rest at the end.
\<close>

definition ex_new_io :: new_io where
  "ex_new_io = \<lparr>niStat = Some (1, 2 ^ 30), niTemp = Some ''f'', niRetention = True, niHeader = Some [],
     niFlush = Some [\<lparr>gzData = ''ab'', gzSinkOk = True, gzFileTook = 2\<rparr>], niUnix = 1, niNow = 0\<rparr>"

definition ex_rec_opts :: rec_options where
  "ex_rec_opts = \<lparr>optWidth = 80, optHeight = 24, optTitle = '''', optSessionID = ''s'', optUser = ''bob'',
     optPrincipal = '''', optTerm = '''', optMaxSize = 0\<rparr>"

definition ex_rec :: recorder where
  "ex_rec = gz_out \<lparr>rPath = ''f'', rMaxSize = defaultMaxSize, rFile = [], rWritten = 0, rHasSink = True,
     rTeeOn = True, rSinkGot = [], rLast = 0, rCarry = 0, rPartial = (\<lambda>_. []), rExit = None, rDirty = False,
     rClosed = False, rText = header_line 1 ex_rec_opts, rEvents = []\<rparr>
     [\<lparr>gzData = ''ab'', gzSinkOk = True, gzFileTook = 2\<rparr>]"

definition ex_close_io :: close_io where
  "ex_close_io = \<lparr>ioOut = (5, []), ioIn = (5, []), ioExit = (5, []),
     ioGzClose = [\<lparr>gzData = ''cd'', gzSinkOk = True, gzFileTook = 2\<rparr>]\<rparr>"

definition ex_calls :: "rec_call list" where
  "ex_calls = [RcOutput ex_close_io (1, []) [CHR ''h'', CHR 0xC3], RcOutput ex_close_io (2, []) [CHR 0xA9], RcExit 0]"

lemma ex_rec_new: "rec_new ex_new_io ex_rec_opts True = Inr ex_rec"
  by (simp add: rec_new_def ex_new_io_def ex_rec_def checkDiskSpace_def minFreeDisk_def ex_rec_opts_def)

lemma rec_emit_quiet [simp]:
  "rWritten (rec_emit fl r (t, []) ty data) = rWritten r" "rTeeOn (rec_emit fl r (t, []) ty data) = rTeeOn r"
  "rSinkGot (rec_emit fl r (t, []) ty data) = rSinkGot r"
  by (simp_all add: rec_emit_def gz_out_def Let_def split: prod.splits)

lemma ex_rec_open [simp]:
  "rWritten ex_rec < rMaxSize ex_rec" "\<not> rClosed ex_rec" "rTeeOn ex_rec" "rSinkGot ex_rec = [''ab'']"
  by (simp_all add: ex_rec_def gz_out_frame)
    (simp_all add: gz_out_def tee_write_def counting_write_def defaultMaxSize_def)

lemma rec_event_quiet:
  assumes "\<not> rClosed r" "rWritten r < rMaxSize r"
  shows "rWritten (fst (rec_event fl io (t, []) ty d r)) = rWritten r"
    "rMaxSize (fst (rec_event fl io (t, []) ty d r)) = rMaxSize r"
    "rTeeOn (fst (rec_event fl io (t, []) ty d r)) = rTeeOn r"
    "rSinkGot (fst (rec_event fl io (t, []) ty d r)) = rSinkGot r"
  using assms by (simp_all add: rec_event_def Let_def rec_emit_frame)

lemma ex_close_tee:
  assumes "rTeeOn r" "\<not> rClosed r"
  shows "rTeeOn (closeLocked fl ex_close_io r)" "rSinkGot (closeLocked fl ex_close_io r) = rSinkGot r @ [''cd'']"
  using assms
  by (simp_all add: closeLocked_def Let_def flush_partial_def ex_close_io_def gz_out_def tee_write_def counting_write_def
      split: option.splits)

lemma ex_rec_run:
  obtains r' where "run_calls id (ex_calls @ [RcClose ex_close_io]) ex_rec = (r', 0)" "rTeeOn r'"
    "rSinkGot r' = [''ab'', ''cd'']"
proof -
  let ?r1 = "fst (rec_event id ex_close_io (1, []) ''o'' [CHR ''h'', CHR 0xC3] ex_rec)"
  let ?r2 = "fst (rec_event id ex_close_io (2, []) ''o'' [CHR 0xA9] ?r1)"
  have r1: "\<not> rClosed ?r1" "rWritten ?r1 < rMaxSize ?r1" "rTeeOn ?r1" "rSinkGot ?r1 = [''ab'']"
    by (simp_all add: rec_event_open rec_event_quiet)
  then have r2: "\<not> rClosed ?r2" "rTeeOn ?r2" "rSinkGot ?r2 = [''ab'']" by (simp_all add: rec_event_open rec_event_quiet)
  have "do_call id (RcOutput ex_close_io (1, []) [CHR ''h'', CHR 0xC3]) ex_rec = (?r1, False)"
    "do_call id (RcOutput ex_close_io (2, []) [CHR 0xA9]) ?r1 = (?r2, False)"
    using rec_event_open(3) [OF ex_rec_open(2,1), of id ex_close_io "(1, [])" "''o''" "[CHR ''h'', CHR 0xC3]"]
      rec_event_open(3) [OF r1(1,2), of id ex_close_io "(2, [])" "''o''" "[CHR 0xA9]"]
    by (simp_all add: record_defs prod_eq_iff)
  then have "run_calls id (ex_calls @ [RcClose ex_close_io]) ex_rec =
      (closeLocked id ex_close_io (RecordExit 0 ?r2), 0)"
    by (simp add: ex_calls_def del: do_call.simps(1))
  moreover have "rTeeOn (closeLocked id ex_close_io (RecordExit 0 ?r2))"
    "rSinkGot (closeLocked id ex_close_io (RecordExit 0 ?r2)) = [''ab'', ''cd'']"
    using r2 ex_close_tee [of "RecordExit 0 ?r2" id] by (simp_all add: RecordExit_def)
  ultimately show ?thesis using that by simp
qed

lemma ex_calls_valid: "valid_utf8 (given ''o'' ex_calls)" "\<not> list_ex is_close ex_calls"
  by (simp_all add: ex_calls_def utf8_lead_def utf8_char_def in_range_def is_cont_def)

theorem recording_keeps_streams_witness:
  "stream_of ''o'' (rEvents (fst (run_calls id (ex_calls @ [RcClose ex_close_io]) ex_rec))) = [CHR ''h'', CHR 0xC3, CHR 0xA9]"
proof (rule ex_rec_run)
  fix r' assume run: "run_calls id (ex_calls @ [RcClose ex_close_io]) ex_rec = (r', 0)"
  then have "stream_of ''o'' (rEvents r') = given ''o'' ex_calls"
    using recording_keeps_streams [OF ex_rec_new run] ex_calls_valid(2) by simp
  with run show ?thesis by (simp add: ex_calls_def)
qed

theorem replay_equals_stream_witness:
  "replay ''o'' (rEvents (fst (run_calls id (ex_calls @ [RcClose ex_close_io]) ex_rec))) = [CHR ''h'', CHR 0xC3, CHR 0xA9]"
proof (rule ex_rec_run)
  fix r' assume run: "run_calls id (ex_calls @ [RcClose ex_close_io]) ex_rec = (r', 0)"
  with replay_equals_stream [OF ex_rec_new run ex_calls_valid(2) _ ex_calls_valid(1)] show ?thesis
    by (simp add: ex_calls_def)
qed

theorem exit_event_is_last_witness:
  "\<exists>evs. rEvents (fst (run_calls id [RcExit 3] ex_rec)) =
      evs @ (if rClosed (fst (run_calls id [RcExit 3] ex_rec))
             then (case rExit (fst (run_calls id [RcExit 3] ex_rec)) of None \<Rightarrow> [] | Some c \<Rightarrow> [(''x'', itoa c)]) else [])
    \<and> ''x'' \<notin> fst ` set evs"
  by (rule exit_event_is_last [OF ex_rec_new prod.collapse [symmetric]])

theorem sink_receives_the_file_witness:
  "concat (rSinkGot (fst (run_calls id (ex_calls @ [RcClose ex_close_io]) ex_rec))) =
   rFile (fst (run_calls id (ex_calls @ [RcClose ex_close_io]) ex_rec))"
proof (rule ex_rec_run)
  fix r' assume run: "run_calls id (ex_calls @ [RcClose ex_close_io]) ex_rec = (r', 0)" and tee: "rTeeOn r'"
  have "all_taken (concat (map call_chunks (ex_calls @ [RcClose ex_close_io])))"
    by (simp add: all_taken_def ex_calls_def ex_close_io_def close_chunks_def)
  with sink_receives_the_file [OF ex_rec_new run tee] run show ?thesis
    by (simp add: ex_new_io_def all_taken_def)
qed

end
