(* ===== verification/Uploader.thy ===== *)
theory Uploader
  imports Nokkud_Prelude "HOL-Library.Sublist"
begin

text \<open>
  The live upload of a recording, \<^verbatim>\<open>internal/recording/uploader.go\<close>. A writer puts chunks into a
  bounded channel, a goroutine (\<^verbatim>\<open>sendLoop\<close>) takes them out and sends them on a stream to the
  backend, and \<^verbatim>\<open>Close\<close> waits for it. The three run concurrently: each has its own steps, as
  small as its mutex and the operations on the channel make them, and a run is any interleaving.
  The backend's answers are arguments of the steps.
\<close>

datatype up_msg = MsgMeta string string string "int option" | MsgChunk bytes | MsgFinal

record up_meta =
  umSession :: string
  umUser :: string
  umPrincipal :: string

text \<open>Where \<^verbatim>\<open>sendLoop\<close> and \<^verbatim>\<open>finish\<close> are.\<close>

datatype loop_pc = Receiving | Have bytes | Ending | Answering | Ended

datatype close_error = UploadFailed string string | UploadTimedOut

datatype finish_pc =
    NotClosing | Marked | Waiting | Waited "close_error option" | Canceled "close_error option"
  | Returned "close_error option"

text \<open>
  \<open>uStream\<close> holds the messages the stream took, \<open>uGiven\<close> the chunks \<^verbatim>\<open>Write\<close> was called with before
  \<^verbatim>\<open>Close\<close>, and \<open>uConfirmed\<close> whether the backend answered the end of the stream without an error.
\<close>

record uploader =
  uQueue :: "bytes list"
  uChanClosed :: bool
  uErr :: "close_error option"
  uClosed :: bool
  uLoop :: loop_pc
  uStream :: "up_msg list option"
  uBroken :: bool
  uFinish :: finish_pc
  uCanceled :: bool
  uGiven :: "bytes list"
  uConfirmed :: bool

definition maxBufferedChunks :: nat where "maxBufferedChunks = 64"

definition NewUploader :: uploader where
  "NewUploader = \<lparr>uQueue = [], uChanClosed = False, uErr = None, uClosed = False, uLoop = Receiving,
     uStream = None, uBroken = False, uFinish = NotClosing, uCanceled = False, uGiven = [], uConfirmed = False\<rparr>"

section \<open>Operations\<close>

definition failLocked :: "string \<Rightarrow> string \<Rightarrow> uploader \<Rightarrow> uploader" where
  "failLocked wh e u = (if uErr u \<noteq> None then u else u\<lparr>uErr := Some (UploadFailed wh e)\<rparr>)"

text \<open>\<^const>\<open>None\<close> is the panic of a send on a closed channel.\<close>

definition up_Write :: "bytes \<Rightarrow> uploader \<Rightarrow> uploader option" where
  "up_Write p u =
     (if p = [] then Some u
      else
        let u = (if uClosed u then u else u\<lparr>uGiven := uGiven u @ [p]\<rparr>) in
        if uClosed u \<or> uErr u \<noteq> None then Some u
        else if uChanClosed u then None
        else if length (uQueue u) < maxBufferedChunks then Some (u\<lparr>uQueue := uQueue u @ [p]\<rparr>)
        else Some (failLocked ''upload queue full'' ''queue full'' u))"

text \<open>The answers of the backend: to the opening of a stream, to a send, and to the end of the stream.\<close>

record up_net =
  netOpen :: "string option"
  netSend :: "string option"
  netRecv :: "string option"

definition up_open :: "up_meta \<Rightarrow> up_net \<Rightarrow> string + up_msg list" where
  "up_open m net =
     (case netOpen net of Some e \<Rightarrow> Inl e
      | None \<Rightarrow>
          (case netSend net of Some e \<Rightarrow> Inl e
           | None \<Rightarrow> Inr [MsgMeta (umSession m) (umUser m) (umPrincipal m) None]))"

definition stream_add :: "up_msg \<Rightarrow> uploader \<Rightarrow> uploader" where
  "stream_add msg u = u\<lparr>uStream := map_option (\<lambda>ms. ms @ [msg]) (uStream u)\<rparr>"

text \<open>One step of \<^verbatim>\<open>sendLoop\<close>; \<^const>\<open>None\<close> when it waits for a chunk or has returned.\<close>

definition loop_step :: "up_meta \<Rightarrow> up_net \<Rightarrow> uploader \<Rightarrow> uploader option" where
  "loop_step m net u =
     (case uLoop u of
        Receiving \<Rightarrow>
          (case uQueue u of
             c # q \<Rightarrow> Some (u\<lparr>uQueue := q, uLoop := Have c\<rparr>)
           | [] \<Rightarrow> if uChanClosed u then Some (u\<lparr>uLoop := Ending\<rparr>) else None)
      | Have c \<Rightarrow>
          if uBroken u then Some (u\<lparr>uLoop := Receiving\<rparr>)
          else if uStream u = None then
            (case up_open m net of
               Inl e \<Rightarrow> Some ((failLocked ''open upload stream'' e u)\<lparr>uBroken := True, uLoop := Receiving\<rparr>)
             | Inr ms \<Rightarrow> Some (u\<lparr>uStream := Some ms\<rparr>))
          else
            (case netSend net of
               None \<Rightarrow> Some ((stream_add (MsgChunk c) u)\<lparr>uLoop := Receiving\<rparr>)
             | Some e \<Rightarrow>
                 let e' = (case netRecv net of Some a \<Rightarrow> a | None \<Rightarrow> e) in
                 Some ((failLocked ''send recording chunk'' e' u)\<lparr>uBroken := True, uLoop := Receiving\<rparr>))
      | Ending \<Rightarrow>
          if uStream u = None \<or> uBroken u then Some (u\<lparr>uLoop := Ended\<rparr>)
          else Some ((if netSend net = None then stream_add MsgFinal u else u)\<lparr>uLoop := Answering\<rparr>)
      | Answering \<Rightarrow>
          (case netRecv net of
             Some e \<Rightarrow> Some ((failLocked ''finish upload'' e u)\<lparr>uLoop := Ended\<rparr>)
           | None \<Rightarrow> Some (u\<lparr>uLoop := Ended, uConfirmed := True\<rparr>))
      | Ended \<Rightarrow> None)"

text \<open>
  One step of \<^verbatim>\<open>finish\<close>, which runs once, in the first call of \<^verbatim>\<open>Close\<close>. The argument tells whether
  the timer has fired; \<^const>\<open>None\<close> when it waits or has returned.
\<close>

definition finish_step :: "bool \<Rightarrow> uploader \<Rightarrow> uploader option" where
  "finish_step timeout u =
     (case uFinish u of
        NotClosing \<Rightarrow> Some (u\<lparr>uClosed := True, uFinish := Marked\<rparr>)
      | Marked \<Rightarrow> Some (u\<lparr>uChanClosed := True, uFinish := Waiting\<rparr>)
      | Waiting \<Rightarrow>
          if timeout then Some (u\<lparr>uFinish := Waited (Some UploadTimedOut)\<rparr>)
          else if uLoop u = Ended then Some (u\<lparr>uFinish := Waited None\<rparr>)
          else None
      | Waited e \<Rightarrow> Some (u\<lparr>uCanceled := True, uFinish := Canceled e\<rparr>)
      | Canceled e \<Rightarrow> Some (u\<lparr>uFinish := Returned (case uErr u of None \<Rightarrow> e | Some x \<Rightarrow> Some x)\<rparr>)
      | Returned e \<Rightarrow> None)"

inductive up_step :: "up_meta \<Rightarrow> uploader \<Rightarrow> uploader \<Rightarrow> bool" for m where
  writes: "up_Write p u = Some u' \<Longrightarrow> up_step m u u'"
| sends: "loop_step m net u = Some u' \<Longrightarrow> up_step m u u'"
| finishes: "finish_step timeout u = Some u' \<Longrightarrow> up_step m u u'"

inductive_cases up_stepE: "up_step m u u'"

section \<open>The invariant\<close>

fun in_hand :: "loop_pc \<Rightarrow> bytes list" where
  "in_hand (Have c) = [c]"
| "in_hand _ = []"

definition chunks_of :: "up_msg list \<Rightarrow> bytes list" where
  "chunks_of ms = List.map_filter (\<lambda>msg. case msg of MsgChunk c \<Rightarrow> Some c | _ \<Rightarrow> None) ms"

definition sent_chunks :: "uploader \<Rightarrow> bytes list" where
  "sent_chunks u = (case uStream u of None \<Rightarrow> [] | Some ms \<Rightarrow> chunks_of ms)"

lemma chunks_of_simps [simp]:
  "chunks_of [] = []" "chunks_of (MsgChunk c # ms) = c # chunks_of ms"
  "chunks_of (MsgMeta a b d e # ms) = chunks_of ms" "chunks_of (MsgFinal # ms) = chunks_of ms"
  "chunks_of (ms @ ns) = chunks_of ms @ chunks_of ns"
  by (simp_all add: chunks_of_def List.map_filter_def)

text \<open>The stream starts with the meta data, then has chunks, and a final message once the loop is over.\<close>

definition msgs_ok :: "up_meta \<Rightarrow> bool \<Rightarrow> up_msg list \<Rightarrow> bool" where
  "msgs_ok m over ms \<longleftrightarrow>
     (\<exists>cs fin. ms = MsgMeta (umSession m) (umUser m) (umPrincipal m) None # map MsgChunk cs @ fin \<and>
        (fin = [] \<or> over \<and> fin = [MsgFinal]))"

fun loop_over :: "loop_pc \<Rightarrow> bool" where
  "loop_over Answering = True"
| "loop_over Ended = True"
| "loop_over _ = False"

definition stream_shape :: "up_meta \<Rightarrow> uploader \<Rightarrow> bool" where
  "stream_shape m u \<longleftrightarrow> (case uStream u of None \<Rightarrow> True | Some ms \<Rightarrow> msgs_ok m (loop_over (uLoop u)) ms)"

text \<open>The chunks given are the ones sent, the one in hand and the ones queued, and after a failure some that were dropped.\<close>

definition stream_conserved :: "uploader \<Rightarrow> bool" where
  "stream_conserved u \<longleftrightarrow>
     prefix (sent_chunks u) (uGiven u) \<and>
     (\<not> uBroken u \<longrightarrow> (\<exists>lost. uGiven u = sent_chunks u @ in_hand (uLoop u) @ uQueue u @ lost \<and>
        (uErr u = None \<longrightarrow> lost = [])))"

text \<open>Where \<^verbatim>\<open>finish\<close> is, against the flags it sets and the state of the loop.\<close>

definition finish_ok :: "uploader \<Rightarrow> bool" where
  "finish_ok u \<longleftrightarrow>
     (case uFinish u of
        NotClosing \<Rightarrow> \<not> uClosed u \<and> \<not> uChanClosed u
      | Marked \<Rightarrow> uClosed u \<and> \<not> uChanClosed u
      | Waiting \<Rightarrow> uClosed u \<and> uChanClosed u
      | Waited e \<Rightarrow> uClosed u \<and> uChanClosed u \<and> (e = None \<longrightarrow> uLoop u = Ended)
      | Canceled e \<Rightarrow> uClosed u \<and> uChanClosed u \<and> (e = None \<longrightarrow> uLoop u = Ended)
      | Returned e \<Rightarrow> uClosed u \<and> uChanClosed u \<and> (e = None \<longrightarrow> uLoop u = Ended \<and> uErr u = None))"

definition loop_ok :: "uploader \<Rightarrow> bool" where
  "loop_ok u \<longleftrightarrow>
     length (uQueue u) \<le> maxBufferedChunks \<and> (uErr u = None \<longrightarrow> \<not> uBroken u) \<and>
     (case uLoop u of Receiving \<Rightarrow> True | Have c \<Rightarrow> True
      | Ending \<Rightarrow> uQueue u = [] \<and> uChanClosed u
      | Answering \<Rightarrow> uQueue u = [] \<and> uChanClosed u \<and> uStream u \<noteq> None
      | Ended \<Rightarrow> uQueue u = [] \<and> uChanClosed u \<and> (uErr u = None \<longrightarrow> uStream u = None \<or> uConfirmed u))"

definition up_inv :: "up_meta \<Rightarrow> uploader \<Rightarrow> bool" where
  "up_inv m u \<longleftrightarrow> stream_shape m u \<and> stream_conserved u \<and> finish_ok u \<and> loop_ok u"

lemma up_invI [intro?]:
  "stream_shape m u \<Longrightarrow> stream_conserved u \<Longrightarrow> finish_ok u \<Longrightarrow> loop_ok u \<Longrightarrow> up_inv m u"
  by (simp add: up_inv_def)

lemma up_invD:
  assumes "up_inv m u"
  shows "stream_shape m u" "stream_conserved u" "finish_ok u" "loop_ok u"
  using assms by (simp_all add: up_inv_def)

lemma up_inv_new: "up_inv m NewUploader"
  by (simp add: up_inv_def stream_shape_def stream_conserved_def finish_ok_def loop_ok_def sent_chunks_def
      NewUploader_def)

lemma msgs_ok_mono: "msgs_ok m b ms \<Longrightarrow> (b \<Longrightarrow> b') \<Longrightarrow> msgs_ok m b' ms"
  unfolding msgs_ok_def by blast

lemma msgs_ok_chunk: "msgs_ok m False ms \<Longrightarrow> msgs_ok m b (ms @ [MsgChunk c])"
proof -
  assume "msgs_ok m False ms"
  then obtain cs where "ms = MsgMeta (umSession m) (umUser m) (umPrincipal m) None # map MsgChunk cs"
    by (auto simp: msgs_ok_def)
  then show ?thesis by (simp add: msgs_ok_def exI [of _ "cs @ [c]"])
qed

lemma msgs_ok_final: "msgs_ok m False ms \<Longrightarrow> msgs_ok m True (ms @ [MsgFinal])"
  unfolding msgs_ok_def by clarsimp blast

lemma stream_shape_same:
  assumes "stream_shape m u" "uStream u' = uStream u" "loop_over (uLoop u) \<Longrightarrow> loop_over (uLoop u')"
  shows "stream_shape m u'"
  using assms unfolding stream_shape_def by (auto split: option.splits intro: msgs_ok_mono)

lemma stream_conserved_same:
  assumes "stream_conserved u" "uStream u' = uStream u" "uGiven u' = uGiven u"
    and "uBroken u \<Longrightarrow> uBroken u'" "uErr u' = None \<Longrightarrow> uErr u = None"
    and "\<not> uBroken u' \<Longrightarrow> in_hand (uLoop u') @ uQueue u' = in_hand (uLoop u) @ uQueue u"
  shows "stream_conserved u'"
proof -
  have s: "sent_chunks u' = sent_chunks u" using assms(2) by (simp add: sent_chunks_def)
  have "\<exists>lost. uGiven u' = sent_chunks u' @ in_hand (uLoop u') @ uQueue u' @ lost \<and> (uErr u' = None \<longrightarrow> lost = [])"
    if nb: "\<not> uBroken u'"
  proof -
    from assms(1) nb assms(4) obtain lost where
      "uGiven u = sent_chunks u @ (in_hand (uLoop u) @ uQueue u) @ lost" "uErr u = None \<longrightarrow> lost = []"
      by (auto simp: stream_conserved_def)
    with assms(3,5) assms(6) [OF nb, symmetric] s show ?thesis by (intro exI [of _ lost]) auto
  qed
  with assms(1,3) s show ?thesis by (simp add: stream_conserved_def)
qed

lemma failLocked_frame [simp]:
  "uStream (failLocked wh e u) = uStream u" "uGiven (failLocked wh e u) = uGiven u"
  "uBroken (failLocked wh e u) = uBroken u" "uQueue (failLocked wh e u) = uQueue u"
  "uLoop (failLocked wh e u) = uLoop u" "uFinish (failLocked wh e u) = uFinish u"
  "uClosed (failLocked wh e u) = uClosed u" "uChanClosed (failLocked wh e u) = uChanClosed u"
  "uErr (failLocked wh e u) = Some (case uErr u of None \<Rightarrow> UploadFailed wh e | Some x \<Rightarrow> x)"
  by (simp_all add: failLocked_def split: option.splits)

text \<open>\<^verbatim>\<open>Write\<close> queues the chunk or fails; after \<^verbatim>\<open>Close\<close> it does nothing.\<close>

lemma up_Write_cases:
  assumes "up_Write p u = Some u'"
  obtains (nothing) "u' = u" "p = [] \<or> uClosed u"
  | (queued) "\<not> uClosed u" "uErr u = None" "length (uQueue u) < maxBufferedChunks"
      "u' = u\<lparr>uGiven := uGiven u @ [p], uQueue := uQueue u @ [p]\<rparr>"
  | (dropped) wh e where "\<not> uClosed u" "u' = failLocked wh e (u\<lparr>uGiven := uGiven u @ [p]\<rparr>)"
proof (cases "p = [] \<or> uClosed u")
  case True
  then show ?thesis using assms that(1) by (auto simp: up_Write_def Let_def split: if_splits)
next
  case False
  show ?thesis
  proof (cases "uErr u = None \<and> length (uQueue u) < maxBufferedChunks")
    case True
    then show ?thesis using assms False that(2) by (auto simp: up_Write_def Let_def split: if_splits)
  next
    case full: False
    then have "u' = failLocked ''upload queue full'' ''queue full'' (u\<lparr>uGiven := uGiven u @ [p]\<rparr>)"
      using assms False by (auto simp: up_Write_def Let_def failLocked_def split: if_splits)
    with False that(3) show ?thesis by blast
  qed
qed

lemma up_inv_write:
  assumes "up_inv m u" "up_Write p u = Some u'"
  shows "up_inv m u'"
  using assms(2)
proof (cases rule: up_Write_cases)
  case nothing
  with assms show ?thesis by simp
next
  case queued
  note i = up_invD [OF assms(1)]
  from i(3) queued(1) have f: "uFinish u = NotClosing" "\<not> uChanClosed u"
    by (auto simp: finish_ok_def split: finish_pc.splits)
  show ?thesis
  proof
    show "stream_shape m u'" using i(1) by (rule stream_shape_same) (simp_all add: queued)
    show "stream_conserved u'" using i(2) i(4) queued by (auto simp: stream_conserved_def sent_chunks_def loop_ok_def)
    show "finish_ok u'" using i(3) queued f by (simp add: finish_ok_def)
    show "loop_ok u'" using i(4) queued f by (auto simp: loop_ok_def split: loop_pc.splits)
  qed
next
  case (dropped wh e)
  note i = up_invD [OF assms(1)]
  from i(3) dropped(1) have f: "uFinish u = NotClosing" "\<not> uChanClosed u"
    by (auto simp: finish_ok_def split: finish_pc.splits)
  show ?thesis
  proof
    show "stream_shape m u'" using i(1) by (rule stream_shape_same) (simp_all add: dropped)
    show "stream_conserved u'" using i(2) dropped by (auto simp: stream_conserved_def sent_chunks_def prefix_def)
    show "finish_ok u'" using i(3) dropped f by (simp add: finish_ok_def)
    show "loop_ok u'" using i(4) dropped f by (auto simp: loop_ok_def split: loop_pc.splits)
  qed
qed

lemma up_inv_finish:
  assumes "up_inv m u" "finish_step t u = Some u'"
  shows "up_inv m u'"
proof -
  note i = up_invD [OF assms(1)]
  have same: "uStream u' = uStream u" "uGiven u' = uGiven u" "uBroken u' = uBroken u" "uErr u' = uErr u"
    "uLoop u' = uLoop u" "uQueue u' = uQueue u" "uConfirmed u' = uConfirmed u" "uChanClosed u \<Longrightarrow> uChanClosed u'"
    using assms(2) by (auto simp: finish_step_def split: finish_pc.splits if_splits)
  show ?thesis
  proof
    show "stream_shape m u'" using i(1) by (rule stream_shape_same) (simp_all add: same)
    show "stream_conserved u'" using i(2) by (rule stream_conserved_same) (simp_all add: same)
    show "finish_ok u'" using i(3) assms(2)
      by (cases "uFinish u") (auto simp: finish_ok_def finish_step_def split: if_splits option.splits)
    show "loop_ok u'" using i(4) by (auto simp: loop_ok_def same split: loop_pc.splits)
  qed
qed

text \<open>The loop fails with a chunk in hand, or on the last answer.\<close>

lemma up_inv_failed:
  assumes "up_inv m u" "uLoop u = Have c"
  shows "up_inv m ((failLocked wh e u)\<lparr>uBroken := True, uLoop := Receiving\<rparr>)" (is "up_inv m ?u")
proof
  note i = up_invD [OF assms(1)]
  show "stream_shape m ?u" using i(1) by (rule stream_shape_same) (simp_all add: assms)
  show "stream_conserved ?u" using i(2) by (rule stream_conserved_same) simp_all
  show "finish_ok ?u" using i(3) assms(2) by (auto simp: finish_ok_def split: finish_pc.splits)
  show "loop_ok ?u" using i(4) by (simp add: loop_ok_def)
qed

lemma up_inv_receive:
  assumes "up_inv m u" "loop_step m net u = Some u'" "uLoop u = Receiving"
  shows "up_inv m u'"
proof (cases "uQueue u")
  case Nil
  with assms have u': "u' = u\<lparr>uLoop := Ending\<rparr>" "uChanClosed u" by (auto simp: loop_step_def split: if_splits)
  note i = up_invD [OF assms(1)]
  show ?thesis
  proof
    show "stream_shape m u'" using i(1) by (rule stream_shape_same) (simp_all add: assms u')
    show "stream_conserved u'" using i(2) by (rule stream_conserved_same) (simp_all add: u' assms(3))
    show "finish_ok u'" using i(3) assms(3) u' by (auto simp: finish_ok_def split: finish_pc.splits)
    show "loop_ok u'" using i(4) u' Nil by (simp add: loop_ok_def)
  qed
next
  case (Cons c q)
  with assms have u': "u' = u\<lparr>uQueue := q, uLoop := Have c\<rparr>" by (auto simp: loop_step_def)
  note i = up_invD [OF assms(1)]
  show ?thesis
  proof
    show "stream_shape m u'" using i(1) by (rule stream_shape_same) (simp_all add: assms u')
    show "stream_conserved u'" using i(2) by (rule stream_conserved_same) (simp_all add: u' assms(3) Cons)
    show "finish_ok u'" using i(3) assms(3) u' by (auto simp: finish_ok_def split: finish_pc.splits)
    show "loop_ok u'" using i(4) u' Cons by (simp add: loop_ok_def)
  qed
qed

lemma up_inv_sent:
  assumes "up_inv m u" "uLoop u = Have c" "uStream u = Some ms" "\<not> uBroken u"
  shows "up_inv m ((stream_add (MsgChunk c) u)\<lparr>uLoop := Receiving\<rparr>)" (is "up_inv m ?u")
proof
  note i = up_invD [OF assms(1)]
  show "stream_shape m ?u"
    using i(1) assms by (simp add: stream_shape_def stream_add_def msgs_ok_chunk)
  show "stream_conserved ?u"
    using i(2) assms by (auto simp: stream_conserved_def stream_add_def sent_chunks_def)
  show "finish_ok ?u"
    using i(3) assms(2) by (auto simp: finish_ok_def stream_add_def split: finish_pc.splits)
  show "loop_ok ?u" using i(4) by (simp add: loop_ok_def stream_add_def)
qed

lemma up_inv_opened:
  assumes "up_inv m u" "uLoop u = Have c" "uStream u = None"
  shows "up_inv m (u\<lparr>uStream := Some [MsgMeta (umSession m) (umUser m) (umPrincipal m) None]\<rparr>)" (is "up_inv m ?u")
proof
  note i = up_invD [OF assms(1)]
  show "stream_shape m ?u" by (simp add: stream_shape_def msgs_ok_def)
  show "stream_conserved ?u" using i(2) assms by (auto simp: stream_conserved_def sent_chunks_def)
  show "finish_ok ?u" using i(3) assms(2) by (auto simp: finish_ok_def split: finish_pc.splits)
  show "loop_ok ?u" using i(4) assms(2) by (simp add: loop_ok_def)
qed

lemma up_inv_ending:
  assumes "up_inv m u" "loop_step m net u = Some u'" "uLoop u = Ending"
  shows "up_inv m u'"
proof
  note i = up_invD [OF assms(1)]
  show "stream_shape m u'"
    using i(1) assms(2,3)
    by (auto simp: stream_shape_def loop_step_def stream_add_def split: if_splits option.splits
        intro: msgs_ok_mono msgs_ok_final)
  show "stream_conserved u'"
    using i(2) assms(2,3)
    by (auto simp: stream_conserved_def sent_chunks_def loop_step_def stream_add_def split: if_splits)
  show "finish_ok u'"
    using i(3) assms(2,3)
    by (auto simp: finish_ok_def loop_step_def stream_add_def split: finish_pc.splits if_splits)
  show "loop_ok u'"
    using i(4) assms(2,3) by (auto simp: loop_ok_def loop_step_def stream_add_def split: if_splits)
qed

lemma up_inv_answer:
  assumes "up_inv m u" "loop_step m net u = Some u'" "uLoop u = Answering"
  shows "up_inv m u'"
proof
  note i = up_invD [OF assms(1)]
  show "stream_shape m u'"
    using i(1) assms(2,3) by (auto simp: stream_shape_def loop_step_def split: option.splits intro: msgs_ok_mono)
  show "stream_conserved u'"
    using i(2) assms(2,3) by (auto simp: stream_conserved_def sent_chunks_def loop_step_def split: option.splits)
  show "finish_ok u'"
    using i(3) assms(2,3) by (auto simp: finish_ok_def loop_step_def split: finish_pc.splits option.splits)
  show "loop_ok u'"
    using i(4) assms(2,3) by (auto simp: loop_ok_def loop_step_def split: option.splits)
qed

lemma up_inv_loop:
  assumes "up_inv m u" "loop_step m net u = Some u'"
  shows "up_inv m u'"
proof (cases "uLoop u")
  case (Have c)
  show ?thesis
  proof (cases "uBroken u")
    case True
    with assms Have have u': "u' = u\<lparr>uLoop := Receiving\<rparr>" by (simp add: loop_step_def)
    note i = up_invD [OF assms(1)]
    show ?thesis
    proof
      show "stream_shape m u'" using i(1) by (rule stream_shape_same) (simp_all add: u' Have)
      show "stream_conserved u'" using i(2) by (rule stream_conserved_same) (simp_all add: u' True)
      show "finish_ok u'" using i(3) Have u' by (auto simp: finish_ok_def split: finish_pc.splits)
      show "loop_ok u'" using i(4) u' by (simp add: loop_ok_def)
    qed
  next
    case False
    with assms Have show ?thesis
      by (cases "uStream u")
        (auto simp: loop_step_def up_open_def Let_def split: option.splits
          intro: up_inv_failed up_inv_opened up_inv_sent)
  qed
qed (use assms in \<open>auto intro: up_inv_receive up_inv_ending up_inv_answer simp: loop_step_def\<close>)

lemma up_inv_step: "up_inv m u \<Longrightarrow> up_step m u u' \<Longrightarrow> up_inv m u'"
  by (auto elim!: up_stepE intro: up_inv_write up_inv_finish up_inv_loop)

interpretation up: transition_system "\<lambda>u. u = NewUploader" "up_step m" "up_inv m" for m
  by unfold_locales (simp_all add: up_inv_new up_inv_step)

section \<open>What a close without an error means\<close>

lemma returned_nil:
  assumes "up_inv m u" "uFinish u = Returned None"
  shows "sent_chunks u = uGiven u"
    "uGiven u \<noteq> [] \<Longrightarrow> uConfirmed u \<and> (\<exists>fin. uStream u =
      Some (MsgMeta (umSession m) (umUser m) (umPrincipal m) None # map MsgChunk (uGiven u) @ fin) \<and>
      (fin = [] \<or> fin = [MsgFinal]))"
proof -
  note i = up_invD [OF assms(1)]
  from i(3) assms(2) have e: "uLoop u = Ended" "uErr u = None" by (simp_all add: finish_ok_def)
  with i(2,4) show sent: "sent_chunks u = uGiven u" by (auto simp: stream_conserved_def loop_ok_def)
  assume "uGiven u \<noteq> []"
  with sent obtain ms where ms: "uStream u = Some ms" "chunks_of ms = uGiven u"
    by (auto simp: sent_chunks_def split: option.splits)
  from i(1) ms(1) obtain cs fin where c:
    "ms = MsgMeta (umSession m) (umUser m) (umPrincipal m) None # map MsgChunk cs @ fin" "fin = [] \<or> fin = [MsgFinal]"
    by (auto simp: stream_shape_def msgs_ok_def)
  have "chunks_of (map MsgChunk cs) = cs" by (induction cs) simp_all
  with c ms(2) have "cs = uGiven u" by auto
  with c ms(1) i(4) e show "uConfirmed u \<and> (\<exists>fin. uStream u =
      Some (MsgMeta (umSession m) (umUser m) (umPrincipal m) None # map MsgChunk (uGiven u) @ fin) \<and>
      (fin = [] \<or> fin = [MsgFinal]))"
    by (auto simp: loop_ok_def)
qed

text \<open>C14.
  A close without an error confirms the upload. Whatever the order in which writer, sender and close
  ran and whatever the backend answered, when \<^verbatim>\<open>Close\<close> returned no error the stream took every
  chunk written before it, in order, after the meta data of the session and before nothing but the
  final message, and the backend answered its end with success; or nothing was written at all.
\<close>
theorem close_confirms_upload:
  assumes "(up_step m)\<^sup>*\<^sup>* NewUploader u" "uFinish u = Returned None"
  shows "sent_chunks u = uGiven u \<and> (uGiven u \<noteq> [] \<longrightarrow> uConfirmed u \<and> (\<exists>fin. uStream u =
      Some (MsgMeta (umSession m) (umUser m) (umPrincipal m) None # map MsgChunk (uGiven u) @ fin) \<and>
      (fin = [] \<or> fin = [MsgFinal])))"
  using returned_nil [OF up.inv_reachable [OF refl assms(1)] assms(2)] by blast

text \<open>The uploader never panics and its queue is bounded: no \<^verbatim>\<open>Write\<close> sends on the closed channel, the
  channel is closed at most once, and no more than 64 chunks wait.
\<close>
theorem uploader_never_panics:
  assumes "(up_step m)\<^sup>*\<^sup>* NewUploader u"
  shows "up_Write p u \<noteq> None \<and> (uFinish u = Marked \<longrightarrow> \<not> uChanClosed u) \<and> length (uQueue u) \<le> 64"
  using up_invD(3,4) [OF up.inv_reachable [OF refl assms]]
  by (auto simp: up_Write_def Let_def finish_ok_def loop_ok_def maxBufferedChunks_def split: finish_pc.splits)

section \<open>The send loop ends\<close>

text \<open>Steps of the loop with the answers the backend gives, one after the other.\<close>

fun loop_run :: "up_meta \<Rightarrow> up_net list \<Rightarrow> uploader \<Rightarrow> uploader" where
  "loop_run m [] u = u"
| "loop_run m (net # nets) u = (case loop_step m net u of None \<Rightarrow> u | Some u' \<Rightarrow> loop_run m nets u')"

fun loop_left :: "uploader \<Rightarrow> nat" where
  "loop_left u =
     (case uLoop u of Receiving \<Rightarrow> 3 * length (uQueue u) + 3
      | Have c \<Rightarrow> 3 * length (uQueue u) + 3 + (if uStream u = None then 2 else 1)
      | Ending \<Rightarrow> 2 | Answering \<Rightarrow> 1 | Ended \<Rightarrow> 0)"

lemma loop_step_closed:
  assumes "uChanClosed u" "uLoop u \<noteq> Ended"
  shows "\<exists>u'. loop_step m net u = Some u' \<and> loop_left u' < loop_left u \<and> uChanClosed u'"
proof (cases "uLoop u")
  case Receiving
  then show ?thesis using assms by (cases "uQueue u") (simp_all add: loop_step_def)
next
  case (Have c)
  then show ?thesis
    using assms(1)
    by (cases "uBroken u"; cases "uStream u"; cases "netOpen net"; cases "netSend net")
      (simp_all add: loop_step_def up_open_def stream_add_def Let_def)
next
  case Ending
  then show ?thesis using assms by (simp add: loop_step_def stream_add_def)
next
  case Answering
  then show ?thesis using assms by (cases "netRecv net") (simp_all add: loop_step_def)
qed (use assms in simp)

lemma loop_run_ends:
  assumes "uChanClosed u" "loop_left u \<le> length nets"
  shows "uLoop (loop_run m nets u) = Ended"
  using assms
proof (induction nets arbitrary: u)
  case Nil
  then show ?case by (cases "uLoop u") simp_all
next
  case (Cons net nets)
  show ?case
  proof (cases "uLoop u = Ended")
    case True
    then show ?thesis by (simp add: loop_step_def)
  next
    case False
    from loop_step_closed [OF Cons.prems(1) this, of m net] obtain u' where
      "loop_step m net u = Some u'" "loop_left u' < loop_left u" "uChanClosed u'" by blast
    with Cons show ?thesis by (simp del: loop_left.simps)
  qed
qed

text \<open>C33.
  The send loop ends. Once \<^verbatim>\<open>Close\<close> has closed the channel, the loop returns within 197 steps whatever
  the backend answers to each of its calls, so \<^verbatim>\<open>Close\<close> does not wait for its timer unless a call
  itself hangs.
\<close>
theorem send_loop_ends:
  assumes "(up_step m)\<^sup>*\<^sup>* NewUploader u" "uChanClosed u" "197 \<le> length nets"
  shows "uLoop (loop_run m nets u) = Ended"
proof (rule loop_run_ends [OF assms(2)])
  have "length (uQueue u) \<le> 64"
    using up_invD(4) [OF up.inv_reachable [OF refl assms(1)]] by (simp add: loop_ok_def maxBufferedChunks_def)
  then have "loop_left u \<le> 197" by (auto split: loop_pc.splits)
  with assms(3) show "loop_left u \<le> length nets" by simp
qed

section \<open>The uploader as a pipe\<close>

text \<open>
  What the uploader promises, without queue, goroutines or stream: a pipe that delivers the chunks it
  was given one after the other, may fail, and reports success only when it did not fail and has
  delivered everything.
\<close>

record pipe =
  pGiven :: "bytes list"
  pDelivered :: "bytes list"
  pFailed :: bool
  pResult :: "bool option"

inductive pipe_step :: "pipe \<Rightarrow> pipe \<Rightarrow> bool" where
  give: "pResult a = None \<Longrightarrow> (pFailed a \<longrightarrow> f) \<Longrightarrow> pipe_step a (a\<lparr>pGiven := pGiven a @ [p], pFailed := f\<rparr>)"
| deliver: "pGiven a = pDelivered a @ c # rest \<Longrightarrow> pipe_step a (a\<lparr>pDelivered := pDelivered a @ [c]\<rparr>)"
| break: "pResult a \<noteq> Some True \<Longrightarrow> pipe_step a (a\<lparr>pFailed := True\<rparr>)"
| report: "pResult a = None \<Longrightarrow> (r \<longrightarrow> \<not> pFailed a \<and> pDelivered a = pGiven a) \<Longrightarrow>
    pipe_step a (a\<lparr>pResult := Some r\<rparr>)"

definition pipe_of :: "uploader \<Rightarrow> pipe" where
  "pipe_of u = \<lparr>pGiven = uGiven u, pDelivered = sent_chunks u, pFailed = (uErr u \<noteq> None),
     pResult = (case uFinish u of Returned e \<Rightarrow> Some (e = None) | _ \<Rightarrow> None)\<rparr>"

lemma pipe_of_fail:
  assumes "finish_ok u" "uLoop u \<noteq> Ended"
  shows "pipe_step (pipe_of u) ((pipe_of u)\<lparr>pFailed := True\<rparr>)"
  using assms by (intro pipe_step.break) (auto simp: pipe_of_def finish_ok_def split: finish_pc.splits)

lemma pipe_of_write:
  assumes "up_inv m u" "up_Write p u = Some u'"
  shows "pipe_of u' = pipe_of u \<or> pipe_step (pipe_of u) (pipe_of u')"
  using assms(2)
proof (cases rule: up_Write_cases)
  case nothing
  then show ?thesis by simp
next
  case queued
  with up_invD(3) [OF assms(1)] have "pResult (pipe_of u) = None"
    by (auto simp: pipe_of_def finish_ok_def split: finish_pc.splits)
  from pipe_step.give [OF this, of "pFailed (pipe_of u)" p] queued show ?thesis
    by (simp add: pipe_of_def sent_chunks_def)
next
  case (dropped wh e)
  with up_invD(3) [OF assms(1)] have "pResult (pipe_of u) = None"
    by (auto simp: pipe_of_def finish_ok_def split: finish_pc.splits)
  from pipe_step.give [OF this, of True p] dropped show ?thesis
    by (simp add: pipe_of_def sent_chunks_def)
qed

lemma pipe_of_finish:
  assumes "up_inv m u" "finish_step t u = Some u'"
  shows "pipe_of u' = pipe_of u \<or> pipe_step (pipe_of u) (pipe_of u')"
proof (cases "\<exists>e. uFinish u = Canceled e")
  case True
  then obtain e where e: "uFinish u = Canceled e" by blast
  with assms(2) have u': "u' = u\<lparr>uFinish := Returned (case uErr u of None \<Rightarrow> e | Some x \<Rightarrow> Some x)\<rparr>"
    by (simp add: finish_step_def)
  note i = up_invD [OF assms(1)] up_invD [OF up_inv_finish [OF assms]]
  have "uFinish u' = Returned None \<longrightarrow> uErr u = None \<and> sent_chunks u = uGiven u"
    using returned_nil(1) [OF up_inv_finish [OF assms]] i(7) u' by (auto simp: finish_ok_def sent_chunks_def)
  then have "pipe_step (pipe_of u) ((pipe_of u)\<lparr>pResult := Some (uFinish u' = Returned None)\<rparr>)"
    by (intro pipe_step.report) (auto simp: pipe_of_def e)
  moreover have "pipe_of u' = (pipe_of u)\<lparr>pResult := Some (uFinish u' = Returned None)\<rparr>"
    by (simp add: pipe_of_def u' sent_chunks_def)
  ultimately show ?thesis by simp
next
  case False
  with assms(2) show ?thesis
    by (auto simp: finish_step_def pipe_of_def sent_chunks_def split: finish_pc.splits if_splits)
qed

lemma pipe_of_loop:
  assumes "up_inv m u" "loop_step m net u = Some u'"
  shows "pipe_of u' = pipe_of u \<or> pipe_step (pipe_of u) (pipe_of u')"
proof -
  note i = up_invD [OF assms(1)]
  have fail: "pipe_of ((failLocked wh e u)\<lparr>uBroken := b, uLoop := l\<rparr>) = (pipe_of u)\<lparr>pFailed := True\<rparr>"
    "pipe_of ((failLocked wh e u)\<lparr>uLoop := l\<rparr>) = (pipe_of u)\<lparr>pFailed := True\<rparr>" for wh e b l
    by (simp_all add: pipe_of_def sent_chunks_def)
  show ?thesis
  proof (cases "uLoop u")
    case (Have c)
    show ?thesis
    proof (cases "uBroken u \<or> uStream u = None")
      case True
      with assms(2) Have pipe_of_fail [OF i(3)] show ?thesis
        by (auto simp: loop_step_def up_open_def fail split: option.splits if_splits)
          (simp_all add: pipe_of_def sent_chunks_def)
    next
      case False
      then obtain ms where ms: "uStream u = Some ms" by auto
      from i(2) False Have obtain lost where g: "uGiven u = sent_chunks u @ c # uQueue u @ lost"
        by (auto simp: stream_conserved_def)
      then have "pipe_step (pipe_of u) ((pipe_of u)\<lparr>pDelivered := sent_chunks u @ [c]\<rparr>)"
        using pipe_step.deliver [of "pipe_of u" c "uQueue u @ lost"] by (simp add: pipe_of_def)
      moreover have "pipe_of ((stream_add (MsgChunk c) u)\<lparr>uLoop := Receiving\<rparr>) = (pipe_of u)\<lparr>pDelivered := sent_chunks u @ [c]\<rparr>"
        by (simp add: pipe_of_def sent_chunks_def stream_add_def ms)
      moreover have "pipe_step (pipe_of u) ((pipe_of u)\<lparr>pFailed := True\<rparr>)" using i(3) Have by (intro pipe_of_fail) simp_all
      ultimately show ?thesis
        using assms(2) Have False by (auto simp: loop_step_def fail Let_def split: option.splits)
    qed
  next
    case Answering
    with assms(2) pipe_of_fail [OF i(3)] show ?thesis
      by (auto simp: loop_step_def fail split: option.splits) (simp add: pipe_of_def sent_chunks_def)
  next
    case Receiving
    with assms(2) show ?thesis
      by (auto simp: loop_step_def pipe_of_def sent_chunks_def split: list.splits if_splits)
  next
    case Ending
    with assms(2) show ?thesis
      by (auto simp: loop_step_def pipe_of_def sent_chunks_def stream_add_def split: if_splits)
  qed (use assms(2) in \<open>simp add: loop_step_def\<close>)
qed

text \<open>C15.
  The uploader implements the pipe: every step of the writer, of the send loop and of \<^verbatim>\<open>Close\<close> is a
  step of the pipe or changes nothing about it.
\<close>
theorem uploader_refines_pipe:
  assumes "(up_step m)\<^sup>*\<^sup>* NewUploader u" "up_step m u u'"
  shows "pipe_of u' = pipe_of u \<or> pipe_step (pipe_of u) (pipe_of u')"
proof -
  have inv: "up_inv m u" by (rule up.inv_reachable [OF refl assms(1)])
  from assms(2) show ?thesis
    by cases (rule pipe_of_write [OF inv], assumption, rule pipe_of_loop [OF inv], assumption,
        rule pipe_of_finish [OF inv], assumption)
qed

section \<open>Runs\<close>

text \<open>A backend that takes everything.\<close>

definition net_ok :: up_net where
  "net_ok = \<lparr>netOpen = None, netSend = None, netRecv = None\<rparr>"

lemma write_run:
  assumes "list_all (\<lambda>p. p \<noteq> []) ps" "length ps \<le> 64"
  shows "(up_step m)\<^sup>*\<^sup>* NewUploader (NewUploader\<lparr>uGiven := ps, uQueue := ps\<rparr>)"
  using assms
proof (induction ps rule: rev_induct)
  case Nil
  have "NewUploader\<lparr>uGiven := [], uQueue := []\<rparr> = NewUploader" by (simp add: NewUploader_def)
  then show ?case by simp
next
  case (snoc p ps)
  then have "up_Write p (NewUploader\<lparr>uGiven := ps, uQueue := ps\<rparr>) =
      Some (NewUploader\<lparr>uGiven := ps @ [p], uQueue := ps @ [p]\<rparr>)"
    by (simp add: up_Write_def NewUploader_def maxBufferedChunks_def Let_def)
  with snoc show ?case by (auto intro: rtranclp.rtrancl_into_rtrancl up_step.writes)
qed

text \<open>A predicate that the steps of the loop and of \<^verbatim>\<open>finish\<close> keep, as being reachable is.\<close>

definition step_closed :: "up_meta \<Rightarrow> (uploader \<Rightarrow> bool) \<Rightarrow> bool" where
  "step_closed m P \<longleftrightarrow> (\<forall>u u'. P u \<longrightarrow> (\<exists>net. loop_step m net u = Some u') \<or> (\<exists>t. finish_step t u = Some u') \<longrightarrow> P u')"

lemma run_extend:
  assumes "step_closed m P" "P u"
  shows "finish_step t u = Some u' \<Longrightarrow> P u'" "loop_step m net u = Some u' \<Longrightarrow> P u'"
  using assms unfolding step_closed_def by blast+

lemma reachable_closed: "step_closed m ((up_step m)\<^sup>*\<^sup>* a)"
  unfolding step_closed_def by (blast intro: rtranclp.rtrancl_into_rtrancl up_step.finishes up_step.sends)

text \<open>The loop sends what is queued.\<close>

lemma drain_run:
  assumes P: "step_closed m P" and "P (u\<lparr>uStream := Some ms, uQueue := q, uLoop := Receiving\<rparr>)" "\<not> uBroken u"
  shows "P (u\<lparr>uStream := Some (ms @ map MsgChunk q), uQueue := [], uLoop := Receiving\<rparr>)"
  using assms(2)
proof (induction q arbitrary: ms)
  case (Cons c q)
  have "loop_step m net_ok (u\<lparr>uStream := Some ms, uQueue := c # q, uLoop := Receiving\<rparr>) =
      Some (u\<lparr>uStream := Some ms, uQueue := q, uLoop := Have c\<rparr>)"
    by (simp add: loop_step_def)
  note have_c = run_extend(2) [OF P Cons.prems this]
  have "loop_step m net_ok (u\<lparr>uStream := Some ms, uQueue := q, uLoop := Have c\<rparr>) =
      Some (u\<lparr>uStream := Some (ms @ [MsgChunk c]), uQueue := q, uLoop := Receiving\<rparr>)"
    using assms(3) by (simp add: loop_step_def net_ok_def stream_add_def)
  from Cons.IH [OF run_extend(2) [OF P have_c this]] show ?case by simp
qed simp

text \<open>A run that writes the chunks, closes, sends everything and gets a positive answer.\<close>

definition finished :: "up_meta \<Rightarrow> bytes list \<Rightarrow> bytes list \<Rightarrow> close_error option \<Rightarrow> uploader" where
  "finished m given sent e =
     \<lparr>uQueue = [], uChanClosed = True, uErr = e, uClosed = True, uLoop = Ended,
      uStream = Some (MsgMeta (umSession m) (umUser m) (umPrincipal m) None # map MsgChunk sent @ [MsgFinal]),
      uBroken = False, uFinish = Returned e, uCanceled = True, uGiven = given, uConfirmed = True\<rparr>"

lemma close_run:
  assumes P: "step_closed m P" and start: "P (NewUploader\<lparr>uGiven := given, uQueue := c # q, uErr := e\<rparr>)"
  shows "P (finished m given (c # q) e)"
proof -
  let ?meta = "MsgMeta (umSession m) (umUser m) (umPrincipal m) None"
  let ?u = "NewUploader\<lparr>uGiven := given, uErr := e, uClosed := True, uChanClosed := True, uFinish := Waiting\<rparr>"
  have "finish_step False (NewUploader\<lparr>uGiven := given, uQueue := c # q, uErr := e\<rparr>) =
      Some (NewUploader\<lparr>uGiven := given, uQueue := c # q, uErr := e, uClosed := True, uFinish := Marked\<rparr>)"
    by (simp add: finish_step_def NewUploader_def)
  note run = run_extend(1) [OF P start this]
  have "finish_step False (NewUploader\<lparr>uGiven := given, uQueue := c # q, uErr := e, uClosed := True, uFinish := Marked\<rparr>) =
      Some (?u\<lparr>uQueue := c # q\<rparr>)"
    by (simp add: finish_step_def NewUploader_def)
  note run = run_extend(1) [OF P run this]
  have "loop_step m net_ok (?u\<lparr>uQueue := c # q\<rparr>) = Some (?u\<lparr>uQueue := q, uLoop := Have c\<rparr>)"
    by (simp add: loop_step_def NewUploader_def)
  note run = run_extend(2) [OF P run this]
  have "loop_step m net_ok (?u\<lparr>uQueue := q, uLoop := Have c\<rparr>) = Some (?u\<lparr>uQueue := q, uLoop := Have c, uStream := Some [?meta]\<rparr>)"
    by (simp add: loop_step_def NewUploader_def net_ok_def up_open_def)
  note run = run_extend(2) [OF P run this]
  have "loop_step m net_ok (?u\<lparr>uQueue := q, uLoop := Have c, uStream := Some [?meta]\<rparr>) =
      Some (?u\<lparr>uStream := Some [?meta, MsgChunk c], uQueue := q, uLoop := Receiving\<rparr>)"
    by (simp add: loop_step_def NewUploader_def net_ok_def stream_add_def)
  from drain_run [OF P run_extend(2) [OF P run this]]
  have run: "P (?u\<lparr>uStream := Some (?meta # map MsgChunk (c # q)), uQueue := [], uLoop := Receiving\<rparr>)"
    by (simp add: NewUploader_def)
  have "loop_step m net_ok (?u\<lparr>uStream := Some (?meta # map MsgChunk (c # q)), uQueue := [], uLoop := Receiving\<rparr>) =
      Some (?u\<lparr>uStream := Some (?meta # map MsgChunk (c # q)), uLoop := Ending\<rparr>)"
    by (simp add: loop_step_def NewUploader_def)
  note run = run_extend(2) [OF P run this]
  have "loop_step m net_ok (?u\<lparr>uStream := Some (?meta # map MsgChunk (c # q)), uLoop := Ending\<rparr>) =
      Some (?u\<lparr>uStream := Some (?meta # map MsgChunk (c # q) @ [MsgFinal]), uLoop := Answering\<rparr>)"
    by (simp add: loop_step_def NewUploader_def net_ok_def stream_add_def)
  note run = run_extend(2) [OF P run this]
  have "loop_step m net_ok (?u\<lparr>uStream := Some (?meta # map MsgChunk (c # q) @ [MsgFinal]), uLoop := Answering\<rparr>) =
      Some ((finished m given (c # q) e)\<lparr>uFinish := Waiting, uCanceled := False\<rparr>)"
    by (simp add: loop_step_def NewUploader_def net_ok_def finished_def)
  note run = run_extend(2) [OF P run this]
  have "finish_step False ((finished m given (c # q) e)\<lparr>uFinish := Waiting, uCanceled := False\<rparr>) =
      Some ((finished m given (c # q) e)\<lparr>uFinish := Waited None, uCanceled := False\<rparr>)"
    by (simp add: finish_step_def finished_def)
  note run = run_extend(1) [OF P run this]
  have "finish_step False ((finished m given (c # q) e)\<lparr>uFinish := Waited None, uCanceled := False\<rparr>) =
      Some ((finished m given (c # q) e)\<lparr>uFinish := Canceled None\<rparr>)"
    by (simp add: finish_step_def finished_def)
  note run = run_extend(1) [OF P run this]
  have "finish_step False ((finished m given (c # q) e)\<lparr>uFinish := Canceled None\<rparr>) = Some (finished m given (c # q) e)"
    by (simp add: finish_step_def finished_def split: option.splits)
  from run_extend(1) [OF P run this] show ?thesis .
qed

text \<open>C38.
  An upload abandoned for a full queue is still finalized. When the writer is 64 chunks ahead of the
  sender, the next chunk is dropped and the upload counts as failed, so \<^verbatim>\<open>Close\<close> reports the error
  and the local file is kept; but the send loop does not look at the failure. It sends the queued
  chunks and then the final message, and the backend confirms a recording that lacks its end.
\<close>
theorem full_queue_upload_is_finalized:
  assumes "list_all (\<lambda>p. p \<noteq> []) ps" "length ps = 64" "p \<noteq> []"
  shows "\<exists>u. (up_step m)\<^sup>*\<^sup>* NewUploader u \<and> uGiven u = ps @ [p] \<and> uConfirmed u \<and>
    uStream u = Some (MsgMeta (umSession m) (umUser m) (umPrincipal m) None # map MsgChunk ps @ [MsgFinal]) \<and>
    uFinish u = Returned (Some (UploadFailed ''upload queue full'' ''queue full''))"
proof -
  let ?e = "Some (UploadFailed ''upload queue full'' ''queue full'')"
  have "up_Write p (NewUploader\<lparr>uGiven := ps, uQueue := ps\<rparr>) = Some (NewUploader\<lparr>uGiven := ps @ [p], uQueue := ps, uErr := ?e\<rparr>)"
    using assms by (simp add: up_Write_def NewUploader_def maxBufferedChunks_def Let_def failLocked_def)
  with write_run [OF assms(1), of m] assms(2)
  have run: "(up_step m)\<^sup>*\<^sup>* NewUploader (NewUploader\<lparr>uGiven := ps @ [p], uQueue := ps, uErr := ?e\<rparr>)"
    by (auto intro: rtranclp.rtrancl_into_rtrancl up_step.writes)
  obtain c q where ps: "ps = c # q" using assms(2) by (cases ps) auto
  have "(up_step m)\<^sup>*\<^sup>* NewUploader (finished m (ps @ [p]) ps ?e)"
    using close_run [OF reachable_closed, of m NewUploader ?e c q "ps @ [p]"] run ps by simp
  then show ?thesis by (intro exI [of _ "finished m (ps @ [p]) ps ?e"]) (simp add: finished_def)
qed

definition ex_up_meta :: up_meta where
  "ex_up_meta = \<lparr>umSession = ''s'', umUser = ''bob'', umPrincipal = ''p''\<rparr>"

lemma ex_finished: "(up_step ex_up_meta)\<^sup>*\<^sup>* NewUploader (finished ex_up_meta [''a'', ''b''] [''a'', ''b''] None)"
proof -
  have "NewUploader\<lparr>uGiven := [''a'', ''b''], uQueue := [''a'', ''b''], uErr := None\<rparr> =
      NewUploader\<lparr>uGiven := [''a'', ''b''], uQueue := [''a'', ''b'']\<rparr>" by (simp add: NewUploader_def)
  with write_run [of "[''a'', ''b'']" ex_up_meta] show ?thesis by (intro close_run [OF reachable_closed]) simp
qed

theorem close_confirms_upload_witness:
  "uFinish (finished ex_up_meta [''a'', ''b''] [''a'', ''b''] None) = Returned None \<and>
   sent_chunks (finished ex_up_meta [''a'', ''b''] [''a'', ''b''] None) = [''a'', ''b'']"
  using close_confirms_upload [OF ex_finished] by (simp add: finished_def)

theorem uploader_never_panics_witness: "up_Write ''x'' NewUploader \<noteq> None"
  using uploader_never_panics [OF rtranclp.rtrancl_refl, of "''x''"] by blast

theorem send_loop_ends_witness:
  "uLoop (loop_run ex_up_meta (replicate 197 net_ok) (finished ex_up_meta [''a'', ''b''] [''a'', ''b''] None)) = Ended"
  by (rule send_loop_ends [OF ex_finished]) (simp_all add: finished_def)

theorem uploader_refines_pipe_witness:
  "pipe_of (NewUploader\<lparr>uGiven := [''x''], uQueue := [''x'']\<rparr>) = pipe_of NewUploader \<or>
   pipe_step (pipe_of NewUploader) (pipe_of (NewUploader\<lparr>uGiven := [''x''], uQueue := [''x'']\<rparr>))"
  by (rule uploader_refines_pipe [OF rtranclp.rtrancl_refl up_step.writes [of "''x''"]])
    (simp add: up_Write_def NewUploader_def maxBufferedChunks_def Let_def)

theorem full_queue_upload_is_finalized_witness:
  "\<exists>u. (up_step ex_up_meta)\<^sup>*\<^sup>* NewUploader u \<and> uGiven u = replicate 64 ''a'' @ [''b''] \<and> uConfirmed u \<and>
    uStream u = Some (MsgMeta ''s'' ''bob'' ''p'' None # map MsgChunk (replicate 64 ''a'') @ [MsgFinal]) \<and>
    uFinish u = Returned (Some (UploadFailed ''upload queue full'' ''queue full''))"
  using full_queue_upload_is_finalized [of "replicate 64 ''a''" "''b''" ex_up_meta]
  by (simp add: list_all_iff ex_up_meta_def)

end
