(* ===== verification/Pending.thy ===== *)
theory Pending
  imports Recorder Uploader
begin

text \<open>
  Recordings that wait for their upload, \<^verbatim>\<open>internal/recording/pending.go\<close>, and how the recorder and
  the live upload work together: \<^verbatim>\<open>closeLocked\<close> removes the local file when the sink confirmed it.
\<close>

section \<open>Errors of the control protocol\<close>

datatype rpc_code = CodeInvalidArgument | CodeUnknown | OtherCode nat

text \<open>An error: a plain one, one with a code, or several joined by \<^verbatim>\<open>errors.Join\<close>.\<close>

datatype go_err = PlainErr string | ConnectErr rpc_code go_err | JoinedErr "go_err list"

text \<open>\<^verbatim>\<open>errors.As\<close> looks for an error with a code depth first; \<^verbatim>\<open>connect.CodeOf\<close> reads its code.\<close>

fun as_connect :: "go_err \<Rightarrow> rpc_code option"
  and as_connects :: "go_err list \<Rightarrow> rpc_code option" where
  "as_connect (PlainErr s) = None"
| "as_connect (ConnectErr c e) = Some c"
| "as_connect (JoinedErr es) = as_connects es"
| "as_connects [] = None"
| "as_connects (e # es) = (case as_connect e of Some c \<Rightarrow> Some c | None \<Rightarrow> as_connects es)"

definition CodeOf :: "go_err option \<Rightarrow> rpc_code" where
  "CodeOf e = (case Option.bind e as_connect of Some c \<Rightarrow> c | None \<Rightarrow> CodeUnknown)"

definition errors_join :: "go_err \<Rightarrow> go_err option \<Rightarrow> go_err" where
  "errors_join a b = JoinedErr (a # (case b of None \<Rightarrow> [] | Some e \<Rightarrow> [e]))"

section \<open>Reading a recording\<close>

record rec_header =
  hdrTimestamp :: int
  hdrSessionID :: string
  hdrUser :: string
  hdrPrincipal :: string

text \<open>What a file gives: to the open, the reader of the compressed text, and the first line of it.\<close>

record file_head =
  fhOpen :: "go_err option"
  fhGzip :: "go_err option"
  fhLine :: "go_err + bytes"

text \<open>The decoder of the header is an argument, as it is for the cache.\<close>

definition readHeader :: "(bytes \<Rightarrow> go_err + rec_header) \<Rightarrow> file_head \<Rightarrow> go_err + rec_header" where
  "readHeader unmarshal f =
     (case fhOpen f of Some e \<Rightarrow> Inl e
      | None \<Rightarrow>
          (case fhGzip f of Some e \<Rightarrow> Inl e
           | None \<Rightarrow>
               (case fhLine f of Inl e \<Rightarrow> Inl e
                | Inr line \<Rightarrow>
                    (case unmarshal line of Inl e \<Rightarrow> Inl e
                     | Inr hdr \<Rightarrow>
                         if hdrSessionID hdr = '''' then Inl (PlainErr ''recording header has no session id'')
                         else Inr hdr))))"

text \<open>The reads of a file into a buffer: bytes and more to come, or bytes with the end or an error.\<close>

datatype file_reads = ReadMore bytes file_reads | ReadEof bytes | ReadErr bytes go_err

fun read_all :: "file_reads \<Rightarrow> bytes" where
  "read_all (ReadMore d r) = d @ read_all r"
| "read_all (ReadEof d) = d"
| "read_all (ReadErr d e) = d"

section \<open>Uploading a file\<close>

text \<open>The answers of the backend: to the opening of the stream, to the nth send, and to the end of the stream.\<close>

record backend =
  bkOpen :: "go_err option"
  bkSend :: "nat \<Rightarrow> go_err option"
  bkRecv :: "go_err option"

text \<open>
  What the stream has taken so far goes along, and with it the error of the last send; a failed send asks for the answer of the
  backend and joins the two errors.
\<close>

definition pend_send :: "backend \<Rightarrow> up_msg list \<Rightarrow> up_msg \<Rightarrow> up_msg list \<times> go_err option" where
  "pend_send bk ms req =
     (case bkSend bk (length ms) of None \<Rightarrow> (ms @ [req], None) | Some e \<Rightarrow> (ms, Some (errors_join e (bkRecv bk))))"

definition send_data :: "backend \<Rightarrow> up_msg list \<Rightarrow> bytes \<Rightarrow> up_msg list \<times> go_err option" where
  "send_data bk ms d = (if d = [] then (ms, None) else pend_send bk ms (MsgChunk d))"

fun send_reads :: "backend \<Rightarrow> up_msg list \<Rightarrow> file_reads \<Rightarrow> up_msg list \<times> go_err option" where
  "send_reads bk ms (ReadMore d r) =
     (case send_data bk ms d of (ms1, Some e) \<Rightarrow> (ms1, Some e) | (ms1, None) \<Rightarrow> send_reads bk ms1 r)"
| "send_reads bk ms (ReadEof d) = send_data bk ms d"
| "send_reads bk ms (ReadErr d e) =
     (case send_data bk ms d of (ms1, Some e1) \<Rightarrow> (ms1, Some e1) | (ms1, None) \<Rightarrow> (ms1, Some e))"

record pend_file =
  pfHead :: file_head
  pfOpen :: "go_err option"
  pfReads :: file_reads
  pfBackend :: backend

definition pend_meta :: "rec_header \<Rightarrow> up_msg" where
  "pend_meta hdr = MsgMeta (hdrSessionID hdr) (hdrUser hdr) (hdrPrincipal hdr)
     (if hdrTimestamp hdr > 0 then Some (hdrTimestamp hdr) else None)"

text \<open>The messages the stream took, also when it failed later, and the error.\<close>

definition uploadFile :: "(bytes \<Rightarrow> go_err + rec_header) \<Rightarrow> pend_file \<Rightarrow> up_msg list \<times> go_err option" where
  "uploadFile unmarshal f =
     (case readHeader unmarshal (pfHead f) of
        Inl e \<Rightarrow> ([], Some (ConnectErr CodeInvalidArgument e))
      | Inr hdr \<Rightarrow>
          (case pfOpen f of Some e \<Rightarrow> ([], Some e)
           | None \<Rightarrow>
               (case bkOpen (pfBackend f) of Some e \<Rightarrow> ([], Some e)
                | None \<Rightarrow>
                    (case pend_send (pfBackend f) [] (pend_meta hdr) of (ms1, Some e) \<Rightarrow> (ms1, Some e)
                     | (ms1, None) \<Rightarrow>
                         (case send_reads (pfBackend f) ms1 (pfReads f) of (ms2, Some e) \<Rightarrow> (ms2, Some e)
                          | (ms2, None) \<Rightarrow>
                              (case pend_send (pfBackend f) ms2 MsgFinal of (ms3, Some e) \<Rightarrow> (ms3, Some e)
                               | (ms3, None) \<Rightarrow> (ms3, bkRecv (pfBackend f))))))))"

text \<open>
  \<^verbatim>\<open>UploadPending\<close>: the files in the order of their names, each with whether it is active when its
  turn comes. The result: the files removed, and the error it stopped at.
\<close>

fun upload_files ::
    "(bytes \<Rightarrow> go_err + rec_header) \<Rightarrow> (string \<Rightarrow> bool) \<Rightarrow> (string \<Rightarrow> pend_file) \<Rightarrow> string list \<Rightarrow>
     string list \<times> (string \<times> go_err) option"
where
  "upload_files unmarshal busy files [] = ([], None)"
| "upload_files unmarshal busy files (p # ps) =
     (if busy p then upload_files unmarshal busy files ps
      else
        (case uploadFile unmarshal (files p) of
           (ms, None) \<Rightarrow> (case upload_files unmarshal busy files ps of (rm, e) \<Rightarrow> (p # rm, e))
         | (ms, Some e) \<Rightarrow>
             if CodeOf (Some e) = CodeInvalidArgument
             then (case upload_files unmarshal busy files ps of (rm, e') \<Rightarrow> (p # rm, e'))
             else ([], Some (path_base p, e))))"

definition UploadPending ::
    "(bytes \<Rightarrow> go_err + rec_header) \<Rightarrow> (string \<Rightarrow> bool) \<Rightarrow> (string \<Rightarrow> pend_file) \<Rightarrow> string list option \<Rightarrow>
     string list \<times> (string \<times> go_err) option"
where
  "UploadPending unmarshal busy files glob =
     (case glob of None \<Rightarrow> ([], Some ('''', PlainErr ''bad pattern'')) | Some ps \<Rightarrow> upload_files unmarshal busy files ps)"

section \<open>What was uploaded\<close>

lemma send_data_ok: "send_data bk ms d = (ms', None) \<Longrightarrow> ms' = ms @ (if d = [] then [] else [MsgChunk d])"
  by (auto simp: send_data_def pend_send_def split: option.splits if_splits)

lemma send_reads_ok:
  "send_reads bk ms r = (ms', None) \<Longrightarrow> \<exists>cs. ms' = ms @ map MsgChunk cs \<and> concat cs = read_all r \<and> [] \<notin> set cs"
proof (induction r arbitrary: ms)
  case (ReadMore d r)
  then obtain ms1 where 1: "send_data bk ms d = (ms1, None)" "send_reads bk ms1 r = (ms', None)"
    by (auto split: prod.splits option.splits)
  from ReadMore.IH [OF 1(2)] obtain cs where "ms' = ms1 @ map MsgChunk cs" "concat cs = read_all r" "[] \<notin> set cs"
    by blast
  with send_data_ok [OF 1(1)] show ?case
    by (intro exI [of _ "(if d = [] then [] else [d]) @ cs"]) auto
next
  case (ReadEof d)
  then show ?case using send_data_ok [of bk ms d ms'] by (auto intro!: exI [of _ "if d = [] then [] else [d]"])
qed (auto split: prod.splits option.splits)

definition uploaded :: "rec_header \<Rightarrow> bytes \<Rightarrow> up_msg list \<Rightarrow> bool" where
  "uploaded hdr content ms \<longleftrightarrow> (\<exists>cs. ms = pend_meta hdr # map MsgChunk cs @ [MsgFinal] \<and> concat cs = content)"

lemma uploadFile_ok:
  assumes "uploadFile unmarshal f = (ms, None)"
  shows "\<exists>hdr. readHeader unmarshal (pfHead f) = Inr hdr \<and> uploaded hdr (read_all (pfReads f)) ms \<and>
    bkRecv (pfBackend f) = None"
proof -
  from assms obtain hdr ms2 where h: "readHeader unmarshal (pfHead f) = Inr hdr"
      "send_reads (pfBackend f) [pend_meta hdr] (pfReads f) = (ms2, None)" "ms = ms2 @ [MsgFinal]"
      "bkRecv (pfBackend f) = None"
    by (auto simp: uploadFile_def pend_send_def split: sum.splits option.splits prod.splits)
  from send_reads_ok [OF h(2)] h(3) have "uploaded hdr (read_all (pfReads f)) ms"
    by (auto simp: uploaded_def)
  with h show ?thesis by blast
qed

lemma upload_files_removed:
  assumes "upload_files unmarshal busy files ps = (rm, e)" "p \<in> set rm"
  shows "p \<in> set ps \<and> \<not> busy p \<and> ((\<exists>ms. uploadFile unmarshal (files p) = (ms, None)) \<or>
    (\<exists>ms err. uploadFile unmarshal (files p) = (ms, Some err) \<and> CodeOf (Some err) = CodeInvalidArgument))"
  using assms
proof (induction ps arbitrary: rm e)
  case (Cons q ps)
  obtain rm1 e1 where r: "upload_files unmarshal busy files ps = (rm1, e1)" by (rule prod.exhaust)
  show ?case
    using Cons.prems Cons.IH [OF r] r by (auto split: if_splits prod.splits option.splits)
qed simp

lemma upload_files_append:
  assumes "upload_files unmarshal busy files ps = (rm, None)"
  shows "upload_files unmarshal busy files (ps @ qs) = (case upload_files unmarshal busy files qs of (rm', e) \<Rightarrow> (rm @ rm', e))"
  using assms
proof (induction ps arbitrary: rm)
  case Nil
  then show ?case by (simp split: prod.splits)
next
  case (Cons q ps)
  obtain rm1 e1 where r: "upload_files unmarshal busy files ps = (rm1, e1)" by (rule prod.exhaust)
  with Cons.prems have "e1 = None" by (auto split: if_splits prod.splits option.splits)
  with r Cons.prems Cons.IH [of rm1] show ?case by (auto split: if_splits prod.splits option.splits)
qed

text \<open>C34.
  A pending recording is removed only when it was uploaded or can never be. A file that
  \<^verbatim>\<open>UploadPending\<close> removed was not being written, and either the stream took the meta data of its
  header, its whole content up to the end of the file, and the final message, and the backend answered with success,
  or the upload ended with the code of a file that is not acceptable.
\<close>
theorem pending_removed_when_uploaded:
  assumes "UploadPending unmarshal busy files glob = (rm, e)" "p \<in> set rm"
  shows "\<not> busy p \<and>
    ((\<exists>hdr ms. readHeader unmarshal (pfHead (files p)) = Inr hdr \<and> uploadFile unmarshal (files p) = (ms, None) \<and>
        uploaded hdr (read_all (pfReads (files p))) ms \<and> bkRecv (pfBackend (files p)) = None) \<or>
     (\<exists>ms err. uploadFile unmarshal (files p) = (ms, Some err) \<and> CodeOf (Some err) = CodeInvalidArgument))"
proof -
  from assms obtain ps where "upload_files unmarshal busy files ps = (rm, e)"
    by (auto simp: UploadPending_def split: option.splits)
  from upload_files_removed [OF this assms(2)] show ?thesis using uploadFile_ok by blast
qed

text \<open>\<^verbatim>\<open>UploadPending\<close> works oldest first and stops at the first failure: the files removed are, in order,
  those not active before the one the error names, and all of them when there was no error.
\<close>
theorem pending_stops_at_first_failure:
  "upload_files unmarshal busy files ps = (filter (\<lambda>p. \<not> busy p) ps, None) \<or>
   (\<exists>before p after ms err. ps = before @ p # after \<and> \<not> busy p \<and> uploadFile unmarshal (files p) = (ms, Some err) \<and>
      CodeOf (Some err) \<noteq> CodeInvalidArgument \<and>
      upload_files unmarshal busy files ps = (filter (\<lambda>p. \<not> busy p) before, Some (path_base p, err)))"
proof (induction ps)
  case (Cons q ps)
  show ?case
  proof (cases "\<not> busy q \<and> (\<exists>ms err. uploadFile unmarshal (files q) = (ms, Some err) \<and> CodeOf (Some err) \<noteq> CodeInvalidArgument)")
    case True
    then obtain ms err where "uploadFile unmarshal (files q) = (ms, Some err)" "CodeOf (Some err) \<noteq> CodeInvalidArgument" by blast
    with True show ?thesis by (intro disjI2 exI [of _ "[]"] exI [of _ q] exI [of _ ps] exI [of _ ms] exI [of _ err]) simp
  next
    case False
    then have step: "upload_files unmarshal busy files (q # ps) =
        (case upload_files unmarshal busy files ps of (rm, e) \<Rightarrow> (filter (\<lambda>p. \<not> busy p) [q] @ rm, e))"
      by (auto split: prod.splits option.splits)
    from Cons show ?thesis
    proof
      assume "upload_files unmarshal busy files ps = (filter (\<lambda>p. \<not> busy p) ps, None)"
      with step show ?thesis by auto
    next
      assume "\<exists>before p after ms err. ps = before @ p # after \<and> \<not> busy p \<and> uploadFile unmarshal (files p) = (ms, Some err) \<and>
        CodeOf (Some err) \<noteq> CodeInvalidArgument \<and>
        upload_files unmarshal busy files ps = (filter (\<lambda>p. \<not> busy p) before, Some (path_base p, err))"
      then obtain before p after ms err where "ps = before @ p # after" "\<not> busy p" "uploadFile unmarshal (files p) = (ms, Some err)"
        "CodeOf (Some err) \<noteq> CodeInvalidArgument"
        "upload_files unmarshal busy files ps = (filter (\<lambda>p. \<not> busy p) before, Some (path_base p, err))" by blast
      with step show ?thesis
        by (intro disjI2 exI [of _ "q # before"] exI [of _ p] exI [of _ after] exI [of _ ms] exI [of _ err]) simp
    qed
  qed
qed simp

text \<open>C39.
  A recording that cannot be opened is lost. When the open of a pending file fails, for whatever reason
  (no file descriptor left, an error of the disk), the failure is taken for a file the backend will
  never accept: wherever the file stands among the pending ones, once the pass gets to it the file is removed although
  the stream took no message of it, and the pass goes on with the files after it.
\<close>
theorem unopened_recording_is_removed:
  assumes "UploadPending unmarshal busy files (Some before) = (rm, None)"
    and "\<not> busy p" "fhOpen (pfHead (files p)) = Some e"
    and "UploadPending unmarshal busy files (Some after) = (rm', e')"
  shows "UploadPending unmarshal busy files (Some (before @ p # after)) = (rm @ p # rm', e') \<and>
    fst (uploadFile unmarshal (files p)) = []"
proof -
  have up: "uploadFile unmarshal (files p) = ([], Some (ConnectErr CodeInvalidArgument e))"
    using assms(3) by (simp add: uploadFile_def readHeader_def)
  then have "upload_files unmarshal busy files (p # after) = (p # rm', e')"
    using assms(2,4) by (simp add: UploadPending_def CodeOf_def)
  with upload_files_append [of unmarshal busy files before rm "p # after"] assms(1) up show ?thesis
    by (simp add: UploadPending_def)
qed

section \<open>The recorder with a live upload\<close>

text \<open>
  The interface of a sink: \<open>fed ws s\<close> when it is in state \<open>s\<close> after the writes \<open>ws\<close>, whether its close
  returned without an error, and what has arrived at the other end.
\<close>

locale sink =
  fixes fed :: "bytes list \<Rightarrow> 's \<Rightarrow> bool"
    and closed_ok :: "'s \<Rightarrow> bool"
    and received :: "'s \<Rightarrow> bytes"
  assumes closed_received: "fed ws s \<Longrightarrow> closed_ok s \<Longrightarrow> received s = concat ws"
begin

text \<open>A sink that was fed by the recorder and confirmed has the file.\<close>

lemma confirmed_file:
  assumes "sink_has_file r" "rTeeOn r" "fed (rSinkGot r) s" "closed_ok s"
  shows "received s = rFile r"
  using assms closed_received [of "rSinkGot r" s] by (simp add: sink_has_file_def)

end

text \<open>The uploader fed with writes, in any interleaving with its loop and its close.\<close>

inductive up_fed :: "up_meta \<Rightarrow> bytes list \<Rightarrow> uploader \<Rightarrow> bool" for m where
  fed_new: "up_fed m [] NewUploader"
| fed_write: "up_fed m ws u \<Longrightarrow> \<not> uClosed u \<Longrightarrow> up_Write p u = Some u' \<Longrightarrow> up_fed m (ws @ [p]) u'"
| fed_loop: "up_fed m ws u \<Longrightarrow> loop_step m net u = Some u' \<Longrightarrow> up_fed m ws u'"
| fed_finish: "up_fed m ws u \<Longrightarrow> finish_step t u = Some u' \<Longrightarrow> up_fed m ws u'"

lemma up_fed_run: "up_fed m ws u \<Longrightarrow> (up_step m)\<^sup>*\<^sup>* NewUploader u"
  by (induction rule: up_fed.induct) (auto intro: rtranclp.rtrancl_into_rtrancl up_step.intros)

lemma loop_step_given: "loop_step m net u = Some u' \<Longrightarrow> uGiven u' = uGiven u"
  by (auto simp: loop_step_def stream_add_def Let_def split: loop_pc.splits list.splits if_splits sum.splits option.splits)

lemma finish_step_given: "finish_step t u = Some u' \<Longrightarrow> uGiven u' = uGiven u"
  by (auto simp: finish_step_def split: finish_pc.splits if_splits)

lemma up_fed_given: "up_fed m ws u \<Longrightarrow> concat (uGiven u) = concat ws"
proof (induction rule: up_fed.induct)
  case (fed_write ws u p u')
  from fed_write.hyps(3) show ?case by (cases rule: up_Write_cases) (use fed_write in auto)
qed (simp_all add: NewUploader_def loop_step_given finish_step_given)

definition up_received :: "uploader \<Rightarrow> bytes" where
  "up_received u = concat (sent_chunks u)"

interpretation live: sink "up_fed m" "\<lambda>u. uFinish u = Returned None" up_received for m
proof
  fix ws u
  assume "up_fed m ws u" "uFinish u = Returned None"
  then show "up_received u = concat ws"
    using returned_nil(1) [OF up.inv_reachable [OF refl up_fed_run]] up_fed_given
    by (simp add: up_received_def)
qed

text \<open>
  What \<^verbatim>\<open>closeLocked\<close> starts when the recorder has a sink: the sink is closed and, when that reports
  no error, the file is removed. The result: is the local file still there; \<open>rFile\<close> goes on naming
  the bytes it had.
\<close>

definition close_sink :: "recorder \<Rightarrow> close_error option \<Rightarrow> bool" where
  "close_sink r res = (\<not> rHasSink r \<or> res \<noteq> None)"

text \<open>C7.
  A recording leaves the disk only when the backend has it. Take any run of a recorder whose sink is
  the live uploader, with every write to the file done in full. When the goroutine of \<^verbatim>\<open>closeLocked\<close>
  removes the file, the chunks the backend took are, put together, the bytes of the file.
\<close>
theorem removed_recording_was_received:
  assumes "rec_new io opts True = Inr r" "run_calls fl cs r = (r', n)" "rTeeOn r'"
    and "all_taken (case niHeader io of Some hs \<Rightarrow> hs | None \<Rightarrow> [])"
    and "all_taken (case niFlush io of Some fs \<Rightarrow> fs | None \<Rightarrow> [])" "all_taken (concat (map call_chunks cs))"
    and "up_fed m (rSinkGot r') u" "uFinish u = Returned res" "\<not> close_sink r' res"
  shows "concat (sent_chunks u) = rFile r'"
proof -
  from assms(8,9) have "uFinish u = Returned None" by (simp add: close_sink_def)
  with sink_run [OF assms(6) sink_new [OF assms(1,4,5)] assms(2)] assms(3,7) show ?thesis
    using live.confirmed_file by (simp add: up_received_def)
qed

section \<open>Examples\<close>

lemma fed_closed: "step_closed m (up_fed m ws)"
  unfolding step_closed_def by (blast intro: fed_loop fed_finish)

lemma ex_fed: "up_fed ex_up_meta [''ab'', ''cd''] (finished ex_up_meta [''ab'', ''cd''] [''ab'', ''cd''] None)"
proof (rule close_run [OF fed_closed])
  have "up_Write ''ab'' NewUploader = Some (NewUploader\<lparr>uGiven := [''ab''], uQueue := [''ab'']\<rparr>)"
    "up_Write ''cd'' (NewUploader\<lparr>uGiven := [''ab''], uQueue := [''ab'']\<rparr>) =
      Some (NewUploader\<lparr>uGiven := [''ab'', ''cd''], uQueue := [''ab'', ''cd''], uErr := None\<rparr>)"
    by (simp_all add: up_Write_def NewUploader_def maxBufferedChunks_def Let_def)
  from fed_write [OF fed_write [OF fed_new _ this(1)] _ this(2)]
  show "up_fed ex_up_meta [''ab'', ''cd''] (NewUploader\<lparr>uGiven := [''ab'', ''cd''], uQueue := [''ab'', ''cd''], uErr := None\<rparr>)"
    by (simp add: NewUploader_def)
qed

theorem removed_recording_was_received_witness:
  "concat (sent_chunks (finished ex_up_meta [''ab'', ''cd''] [''ab'', ''cd''] None)) =
   rFile (fst (run_calls id (ex_calls @ [RcClose ex_close_io]) ex_rec))"
proof (rule ex_rec_run)
  fix r' assume run: "run_calls id (ex_calls @ [RcClose ex_close_io]) ex_rec = (r', 0)" and tee: "rTeeOn r'"
    and got: "rSinkGot r' = [''ab'', ''cd'']"
  have "all_taken (concat (map call_chunks (ex_calls @ [RcClose ex_close_io])))"
    by (simp add: all_taken_def ex_calls_def ex_close_io_def close_chunks_def)
  moreover have "\<not> close_sink r' None"
    using run_calls_sink [OF run] rec_new_fresh(6) [OF ex_rec_new] by (simp add: close_sink_def)
  ultimately show ?thesis
    using removed_recording_was_received [OF ex_rec_new run tee _ _ _ ex_fed [folded got], of None] run
    by (simp add: ex_new_io_def all_taken_def finished_def got)
qed

definition ex_pend :: pend_file where
  "ex_pend = \<lparr>pfHead = \<lparr>fhOpen = None, fhGzip = None, fhLine = Inr ''{}''\<rparr>, pfOpen = None,
     pfReads = ReadMore ''ab'' (ReadEof ''c''), pfBackend = \<lparr>bkOpen = None, bkSend = (\<lambda>_. None), bkRecv = None\<rparr>\<rparr>"

definition ex_unmarshal :: "bytes \<Rightarrow> go_err + rec_header" where
  "ex_unmarshal line = Inr \<lparr>hdrTimestamp = 5, hdrSessionID = ''s'', hdrUser = ''bob'', hdrPrincipal = ''p''\<rparr>"

lemma ex_pending: "UploadPending ex_unmarshal (\<lambda>p. False) (\<lambda>p. ex_pend) (Some [''f'']) = ([''f''], None)"
  by (simp add: UploadPending_def uploadFile_def readHeader_def ex_pend_def ex_unmarshal_def pend_send_def send_data_def)

theorem pending_removed_when_uploaded_witness:
  "(\<exists>hdr ms. readHeader ex_unmarshal (pfHead ex_pend) = Inr hdr \<and> uploadFile ex_unmarshal ex_pend = (ms, None) \<and>
      uploaded hdr (read_all (pfReads ex_pend)) ms \<and> bkRecv (pfBackend ex_pend) = None) \<or>
   (\<exists>ms err. uploadFile ex_unmarshal ex_pend = (ms, Some err) \<and> CodeOf (Some err) = CodeInvalidArgument)"
  using pending_removed_when_uploaded [OF ex_pending, of "''f''"] by simp

definition ex_unopened :: pend_file where
  "ex_unopened = ex_pend\<lparr>pfHead := \<lparr>fhOpen = Some (PlainErr ''too many open files''), fhGzip = None, fhLine = Inr ''{}''\<rparr>\<rparr>"

theorem unopened_recording_is_removed_witness:
  "UploadPending ex_unmarshal (\<lambda>p. False) (\<lambda>p. if p = ''g'' then ex_unopened else ex_pend) (Some [''f'', ''g'', ''h'']) =
     ([''f'', ''g'', ''h''], None) \<and> fst (uploadFile ex_unmarshal ex_unopened) = []"
proof -
  have others: "UploadPending ex_unmarshal (\<lambda>p. False) (\<lambda>p. if p = ''g'' then ex_unopened else ex_pend) (Some [q]) = ([q], None)"
    if "q \<noteq> ''g''" for q
    using that by (simp add: UploadPending_def uploadFile_def readHeader_def ex_pend_def ex_unmarshal_def pend_send_def send_data_def)
  from unopened_recording_is_removed [OF others [of "''f''"] _ _ others [of "''h''"], of "''g''" "PlainErr ''too many open files''"]
  show ?thesis by (simp add: ex_unopened_def)
qed

end
