(* ===== verification/Client_Run.thy ===== *)
theory Client_Run
  imports Client_Sync Pending
begin

text \<open>
  The client at work, \<^verbatim>\<open>internal/client/client.go\<close> and \<^verbatim>\<open>connect.go\<close>: the first sync, the control
  stream with its messages, the reconnects with a backoff and the sync after each, and the waits between
  upload retries. What the network and the clock do is an argument: a run is a list of rounds.
\<close>

section \<open>Syncs and control messages\<close>

text \<open>What one sync meets: the time, the order in which the connections are looked at, the answer, and the writes.\<close>

record sync_io =
  sioNow :: gotime
  sioOrder :: "nat list"
  sioAnswer :: "sync_response option"
  sioCacheOk :: bool
  sioConfigOk :: bool

definition sync_with :: "key_parser \<Rightarrow> sync_io \<Rightarrow> client \<Rightarrow> client \<times> sync_result" where
  "sync_with parse_key s c =
     syncDaemon parse_key (sioNow s) (sioOrder s) (sioAnswer s) (sioCacheOk s) (sioConfigOk s) c"

datatype control_msg = StateUpdate sync_io | RelayOpen string | OtherMsg

text \<open>The client, the results of its syncs and the relays it has started.\<close>

record run_state =
  rsClient :: client
  rsSyncs :: "sync_result list"
  rsRelays :: "string list"

definition do_sync :: "key_parser \<Rightarrow> sync_io \<Rightarrow> run_state \<Rightarrow> run_state \<times> bool" where
  "do_sync parse_key s r =
     (case sync_with parse_key s (rsClient r) of (c', res) \<Rightarrow>
        (r\<lparr>rsClient := c', rsSyncs := rsSyncs r @ [res]\<rparr>, res = DaemonRejected))"

text \<open>The receive loop of \<^verbatim>\<open>runControlStream\<close>; it ends with the stream, or with a rejection.\<close>

fun control_loop :: "key_parser \<Rightarrow> control_msg list \<Rightarrow> run_state \<Rightarrow> run_state \<times> bool" where
  "control_loop parse_key [] r = (r, False)"
| "control_loop parse_key (StateUpdate s # ms) r =
     (case do_sync parse_key s r of (r', rejected) \<Rightarrow> if rejected then (r', True) else control_loop parse_key ms r')"
| "control_loop parse_key (RelayOpen i # ms) r = control_loop parse_key ms (r\<lparr>rsRelays := rsRelays r @ [i]\<rparr>)"
| "control_loop parse_key (OtherMsg # ms) r = control_loop parse_key ms r"

definition runControlStream :: "key_parser \<Rightarrow> control_msg list option \<Rightarrow> run_state \<Rightarrow> run_state \<times> bool" where
  "runControlStream parse_key stream r =
     (case stream of None \<Rightarrow> (r, False) | Some ms \<Rightarrow> control_loop parse_key ms r)"

text \<open>
  \<^verbatim>\<open>sendHeartbeats\<close>: one heartbeat at once and one with each tick, with the version the cache has then,
  until a send fails or the stream's context is done. A tick gives the cache, whether the send succeeds and
  whether the context is done after it.
\<close>

fun sendHeartbeats :: "(cacheJSON \<times> bool \<times> bool) list \<Rightarrow> int list" where
  "sendHeartbeats [] = []"
| "sendHeartbeats ((cache, sendOk, ctxDone) # ts) =
     (if \<not> sendOk then []
      else GetStateVersion cache # (if ctxDone then [] else sendHeartbeats ts))"

section \<open>The run\<close>

text \<open>
  One round of the loop of \<^verbatim>\<open>Run\<close>: the stream (\<^const>\<open>None\<close> when it cannot be opened), whether the context
  is done after it, whether it stayed up for two heartbeats, whether the context ends during the wait,
  and the sync after it.
\<close>

record run_round =
  rdStream :: "control_msg list option"
  rdDone :: bool
  rdStayedUp :: bool
  rdDoneWaiting :: bool
  rdSync :: sync_io

datatype run_end = RunRejected | RunStopped | RunGoing

text \<open>The backoff is known by the number of times it was asked since its last reset; the second list has the waits.\<close>

fun run_loop :: "key_parser \<Rightarrow> run_round list \<Rightarrow> nat \<Rightarrow> run_state \<Rightarrow> run_state \<times> nat list \<times> run_end" where
  "run_loop parse_key [] tries r = (r, [], RunGoing)"
| "run_loop parse_key (d # ds) tries r =
     (case runControlStream parse_key (rdStream d) r of (r1, rejected) \<Rightarrow>
        if rejected then (r1, [], RunRejected)
        else if rdDone d then (r1, [], RunStopped)
        else
          let tries1 = (if rdStayedUp d then 0 else tries) in
          if rdDoneWaiting d then (r1, [tries1], RunStopped)
          else
            (case do_sync parse_key (rdSync d) r1 of (r2, rejected2) \<Rightarrow>
               if rejected2 then (r2, [tries1], RunRejected)
               else (case run_loop parse_key ds (Suc tries1) r2 of (r3, ws, e) \<Rightarrow> (r3, tries1 # ws, e))))"

definition client_Run :: "key_parser \<Rightarrow> sync_io \<Rightarrow> run_round list \<Rightarrow> client \<Rightarrow> run_state \<times> nat list \<times> run_end" where
  "client_Run parse_key first rounds c =
     (case do_sync parse_key first \<lparr>rsClient = c, rsSyncs = [], rsRelays = []\<rparr> of (r, rejected) \<Rightarrow>
        if rejected then (r, [], RunRejected) else run_loop parse_key rounds 0 r)"

section \<open>Waits between uploads\<close>

definition CodeResourceExhausted :: rpc_code where "CodeResourceExhausted = OtherCode 8"

definition retryUploadsEvery :: nat where "retryUploadsEvery = 300"
definition retryUploadsWhenFull :: nat where "retryUploadsWhenFull = 3600"

definition uploadRetryWait :: "go_err option \<Rightarrow> nat" where
  "uploadRetryWait e = (if CodeOf e = CodeResourceExhausted then retryUploadsWhenFull else retryUploadsEvery)"

text \<open>\<^verbatim>\<open>retryUploads\<close>: one pass over the pending recordings and the wait after it, in seconds.\<close>

definition retry_pass ::
    "(bytes \<Rightarrow> go_err + rec_header) \<Rightarrow> (string \<Rightarrow> bool) \<Rightarrow> (string \<Rightarrow> pend_file) \<Rightarrow> string list option \<Rightarrow> string list \<times> nat"
where
  "retry_pass unmarshal busy files glob =
     (case UploadPending unmarshal busy files glob of (rm, e) \<Rightarrow> (rm, uploadRetryWait (map_option snd e)))"

section \<open>A rejection ends the run\<close>

definition no_rejection :: "sync_result list \<Rightarrow> bool" where
  "no_rejection rs \<longleftrightarrow> DaemonRejected \<notin> set rs"

lemma do_sync_syncs:
  "do_sync parse_key s r = (r', rejected) \<Longrightarrow>
     \<exists>res. rsSyncs r' = rsSyncs r @ [res] \<and> (rejected \<longleftrightarrow> res = DaemonRejected)"
  by (auto simp: do_sync_def split: prod.splits)

lemma do_sync_rejected:
  assumes "do_sync parse_key s r = (r', True)"
  shows "CertPrincipals (clCache (rsClient r')) u = []" "clCache (rsClient r') = NewCache"
    "sioCacheOk s \<Longrightarrow> diskCache (rsClient r') = Some NewCache"
  using assms
  by (auto simp: do_sync_def sync_with_def syncDaemon_def reject_daemon_def save_cache_def Clear_def NewCache_def
      CertPrincipals_def Let_def split: prod.splits option.splits if_splits)

text \<open>How a part of the run relates to its start: the rejection, when there is one, is the last sync.\<close>

definition rejection_last :: "run_state \<Rightarrow> run_state \<Rightarrow> bool \<Rightarrow> bool" where
  "rejection_last r r' rejected \<longleftrightarrow>
     (\<exists>rs. no_rejection rs \<and> rsSyncs r' = rsSyncs r @ rs @ (if rejected then [DaemonRejected] else []) \<and>
        (rejected \<longrightarrow> clCache (rsClient r') = NewCache))"

lemma rejection_last_refl: "rejection_last r r False"
  by (simp add: rejection_last_def no_rejection_def exI [of _ "[]"])

lemma rejection_last_trans:
  assumes "rejection_last r r1 False" "rejection_last r1 r2 b"
  shows "rejection_last r r2 b"
proof -
  from assms obtain rs rs' where "no_rejection rs" "rsSyncs r1 = rsSyncs r @ rs" "no_rejection rs'"
    "rsSyncs r2 = rsSyncs r1 @ rs' @ (if b then [DaemonRejected] else [])" "b \<longrightarrow> clCache (rsClient r2) = NewCache"
    by (auto simp: rejection_last_def)
  then show ?thesis unfolding rejection_last_def by (intro exI [of _ "rs @ rs'"]) (simp add: no_rejection_def)
qed

lemma do_sync_last: "do_sync parse_key s r = (r', b) \<Longrightarrow> rejection_last r r' b"
proof -
  assume d: "do_sync parse_key s r = (r', b)"
  from do_sync_syncs [OF this] obtain res where res: "rsSyncs r' = rsSyncs r @ [res]" "b \<longleftrightarrow> res = DaemonRejected" by blast
  show ?thesis
  proof (cases b)
    case True
    with d res show ?thesis
      using do_sync_rejected(2) [of parse_key s r r'] by (simp add: rejection_last_def no_rejection_def exI [of _ "[]"])
  next
    case False
    with res show ?thesis by (simp add: rejection_last_def no_rejection_def exI [of _ "[res]"])
  qed
qed

lemma control_loop_last: "control_loop parse_key ms r = (r', b) \<Longrightarrow> rejection_last r r' b"
proof (induction parse_key ms r rule: control_loop.induct)
  case (1 parse_key r)
  then show ?case by (simp add: rejection_last_refl)
next
  case (2 parse_key s ms r)
  obtain r1 b1 where d: "do_sync parse_key s r = (r1, b1)" by (rule prod.exhaust)
  with 2 do_sync_last [OF d] show ?case
    by (cases b1) (auto intro: rejection_last_trans)
next
  case (3 parse_key i ms r)
  then show ?case by (simp add: rejection_last_def)
next
  case (4 parse_key ms r)
  then show ?case by simp
qed

lemma run_loop_last:
  "run_loop parse_key ds tries r = (r', ws, e) \<Longrightarrow> rejection_last r r' (e = RunRejected)"
proof (induction ds arbitrary: tries r ws)
  case Nil
  then show ?case by (auto simp: rejection_last_refl)
next
  case (Cons d ds)
  obtain r1 b1 where s: "runControlStream parse_key (rdStream d) r = (r1, b1)" by (rule prod.exhaust)
  obtain r2 b2 where d: "do_sync parse_key (rdSync d) r1 = (r2, b2)" by (rule prod.exhaust)
  have l1: "rejection_last r r1 b1"
    using s by (auto simp: runControlStream_def rejection_last_refl split: option.splits intro: control_loop_last)
  show ?case
  proof (cases "b1 \<or> rdDone d \<or> rdDoneWaiting d \<or> b2")
    case True
    with Cons.prems s d l1 do_sync_last [OF d] show ?thesis
      by (auto simp: Let_def split: if_splits intro: rejection_last_trans)
  next
    case False
    obtain r3 ws3 e3 where r3: "run_loop parse_key ds (Suc (if rdStayedUp d then 0 else tries)) r2 = (r3, ws3, e3)"
      by (rule prod_cases3)
    with False Cons.prems s d have "r' = r3" "e = e3" by (simp_all add: Let_def)
    with r3 have "rejection_last r2 r' (e = RunRejected)" by (intro Cons.IH) simp
    with False l1 do_sync_last [OF d] show ?thesis by (auto intro: rejection_last_trans)
  qed
qed

text \<open>The syncs a run may make, and that a rejected run ends with what one of them left.\<close>

definition msg_syncs :: "control_msg list \<Rightarrow> sync_io set" where
  "msg_syncs ms = {s. StateUpdate s \<in> set ms}"

definition round_syncs :: "run_round \<Rightarrow> sync_io set" where
  "round_syncs d = insert (rdSync d) (case rdStream d of None \<Rightarrow> {} | Some ms \<Rightarrow> msg_syncs ms)"

definition answered_rejected :: "sync_io \<Rightarrow> bool" where
  "answered_rejected s \<longleftrightarrow> (case sioAnswer s of None \<Rightarrow> False | Some r \<Rightarrow> srStatus r = StatusRejected)"

definition rejected_by :: "sync_io set \<Rightarrow> client \<Rightarrow> bool" where
  "rejected_by S c \<longleftrightarrow> (\<exists>s \<in> S. answered_rejected s \<and> (\<exists>c0. c = reject_daemon (sioCacheOk s) (sioConfigOk s) c0))"

lemma rejected_by_mono: "rejected_by S c \<Longrightarrow> S \<subseteq> T \<Longrightarrow> rejected_by T c"
  by (auto simp: rejected_by_def)

lemma do_sync_rejected_by: "do_sync parse_key s r = (r', True) \<Longrightarrow> rejected_by {s} (rsClient r')"
  by (auto simp: do_sync_def sync_with_def syncDaemon_def rejected_by_def answered_rejected_def
      split: prod.splits option.splits if_splits)

lemma control_loop_rejected_by:
  "control_loop parse_key ms r = (r', True) \<Longrightarrow> rejected_by (msg_syncs ms) (rsClient r')"
proof (induction parse_key ms r rule: control_loop.induct)
  case (2 parse_key s ms r)
  obtain r1 b1 where d: "do_sync parse_key s r = (r1, b1)" by (rule prod.exhaust)
  show ?case
  proof (cases b1)
    case True
    with 2 d have "rejected_by {s} (rsClient r')" using do_sync_rejected_by by auto
    then show ?thesis by (rule rejected_by_mono) (simp add: msg_syncs_def)
  next
    case False
    with 2 d have "rejected_by (msg_syncs ms) (rsClient r')" by simp
    then show ?thesis by (rule rejected_by_mono) (auto simp: msg_syncs_def)
  qed
qed (auto simp: msg_syncs_def)

lemma runControlStream_rejected_by:
  assumes "runControlStream parse_key (rdStream d) r = (r', True)"
  shows "rejected_by (round_syncs d) (rsClient r')"
  using assms
  by (auto simp: runControlStream_def round_syncs_def split: option.splits intro: rejected_by_mono control_loop_rejected_by)

lemma run_loop_rejected_by:
  "run_loop parse_key ds tries r = (r', ws, RunRejected) \<Longrightarrow> rejected_by (\<Union> (round_syncs ` set ds)) (rsClient r')"
proof (induction ds arbitrary: tries r ws)
  case (Cons d ds)
  obtain r1 b1 where s: "runControlStream parse_key (rdStream d) r = (r1, b1)" by (rule prod.exhaust)
  obtain r2 b2 where d: "do_sync parse_key (rdSync d) r1 = (r2, b2)" by (rule prod.exhaust)
  obtain r3 ws3 e3 where r3: "run_loop parse_key ds (Suc (if rdStayedUp d then 0 else tries)) r2 = (r3, ws3, e3)"
    by (rule prod_cases3)
  from Cons.prems s d r3 consider "b1" "r' = r1" | "b2" "r' = r2" | "r' = r3" "e3 = RunRejected"
    by (auto simp: Let_def split: if_splits)
  then show ?case
  proof cases
    case 1
    with s show ?thesis by (auto intro: rejected_by_mono runControlStream_rejected_by)
  next
    case 2
    with d have "rejected_by {rdSync d} (rsClient r')" using do_sync_rejected_by by auto
    then show ?thesis by (rule rejected_by_mono) (simp add: round_syncs_def)
  next
    case 3
    with r3 have "rejected_by (\<Union> (round_syncs ` set ds)) (rsClient r')" by (intro Cons.IH) simp
    then show ?thesis by (rule rejected_by_mono) auto
  qed
qed simp

lemma client_Run_rejected_by:
  assumes "client_Run parse_key first rounds c = (r, ws, RunRejected)"
  shows "rejected_by (insert first (\<Union> (round_syncs ` set rounds))) (rsClient r)"
proof -
  obtain r1 b where d: "do_sync parse_key first \<lparr>rsClient = c, rsSyncs = [], rsRelays = []\<rparr> = (r1, b)" by (rule prod.exhaust)
  show ?thesis
  proof (cases b)
    case True
    with assms d have "rejected_by {first} (rsClient r)" using do_sync_rejected_by by (auto simp: client_Run_def)
    then show ?thesis by (rule rejected_by_mono) simp
  next
    case False
    with assms d have "rejected_by (\<Union> (round_syncs ` set rounds)) (rsClient r)"
      using run_loop_rejected_by by (auto simp: client_Run_def)
    then show ?thesis by (rule rejected_by_mono) auto
  qed
qed

text \<open>C26.
  A rejected daemon stops. Whatever the control stream delivers and however often it breaks, \<^verbatim>\<open>Run\<close> ends
  with a rejection exactly when a sync was answered with one; that sync is the last one, no access
  list is left in memory, and no principal of any account is.
\<close>
theorem rejection_ends_the_run:
  assumes "client_Run parse_key first rounds c = (r, ws, e)"
  shows "(e = RunRejected \<longleftrightarrow> DaemonRejected \<in> set (rsSyncs r)) \<and>
    (e = RunRejected \<longrightarrow> last (rsSyncs r) = DaemonRejected \<and> DaemonRejected \<notin> set (butlast (rsSyncs r)) \<and>
       clCache (rsClient r) = NewCache \<and> CertPrincipals (clCache (rsClient r)) u = [])"
proof -
  obtain r1 b where d: "do_sync parse_key first \<lparr>rsClient = c, rsSyncs = [], rsRelays = []\<rparr> = (r1, b)" by (rule prod.exhaust)
  have "rejection_last \<lparr>rsClient = c, rsSyncs = [], rsRelays = []\<rparr> r (e = RunRejected)"
    using assms d do_sync_last [OF d] run_loop_last
    by (cases b) (auto simp: client_Run_def intro: rejection_last_trans)
  then show ?thesis
    by (auto simp: rejection_last_def no_rejection_def NewCache_def CertPrincipals_def butlast_append)
qed

text \<open>The backend answers the first sync and rejects the daemon in the one after a state update.\<close>

definition ex_sync :: "daemon_status \<Rightarrow> sync_io" where
  "ex_sync st = \<lparr>sioNow = Time 0 0, sioOrder = [3], sioAnswer = Some ((ex_answer ''ca-key'')\<lparr>srStatus := st\<rparr>),
     sioCacheOk = True, sioConfigOk = True\<rparr>"

definition ex_round :: run_round where
  "ex_round = \<lparr>rdStream = Some [RelayOpen ''r'', StateUpdate (ex_sync StatusRejected)], rdDone = False, rdStayedUp = False,
     rdDoneWaiting = False, rdSync = ex_sync StatusAccepted\<rparr>"

theorem rejection_ends_the_run_witness:
  "\<exists>r ws. client_Run ex_parse (ex_sync StatusAccepted) [ex_round] ex_client = (r, ws, RunRejected) \<and>
     CertPrincipals (clCache (rsClient r)) ''bob'' = []"
proof -
  obtain r ws e where run: "client_Run ex_parse (ex_sync StatusAccepted) [ex_round] ex_client = (r, ws, e)"
    by (rule prod_cases3)
  have "e = RunRejected"
    using run
    by (simp add: client_Run_def do_sync_def sync_with_def syncDaemon_def ex_sync_def ex_answer_def ex_round_def
        runControlStream_def)
  with rejection_ends_the_run [OF run, of "''bob''"] run show ?thesis by blast
qed

end
