(* ===== verification/Host_Report.thy ===== *)
theory Host_Report
  imports Recording_Files Go_Net Go_Path "HOL-Library.Char_ord" "HOL-Library.List_Lexorder"
    "HOL-Library.Multiset"
begin

text \<open>
  What the daemon reports of its host, \<^verbatim>\<open>internal/sysutil\<close>: the accounts a person can use and
  the addresses the host can be reached at; and where its files are, \<^verbatim>\<open>internal/paths\<close>.
\<close>

section \<open>Accounts\<close>

text \<open>\<^verbatim>\<open>strconv.Atoi\<close>: an optional sign and decimal digits, within 64 bits.\<close>

definition atoi :: "string \<Rightarrow> int option" where
  "atoi s =
     (let neg = (s \<noteq> [] \<and> hd s = CHR ''-''); ds = (if s \<noteq> [] \<and> (hd s = CHR ''-'' \<or> hd s = CHR ''+'') then tl s else s) in
      if ds = [] \<or> \<not> list_all is_digit ds then None
      else if neg then (if digits_val ds \<le> 2 ^ 63 then Some (- int (digits_val ds)) else None)
      else if digits_val ds < 2 ^ 63 then Some (int (digits_val ds)) else None)"

definition maxReportedUsers :: nat where "maxReportedUsers = 200"

definition isValidSSHUser :: "int \<Rightarrow> string \<Rightarrow> bool" where
  "isValidSSHUser uid shell =
     ((uid = 0 \<or> uid \<ge> 1000) \<and> \<not> has_suffix shell ''nologin'' \<and> \<not> has_suffix shell ''false'' \<and> \<not> has_suffix shell ''sync'')"

text \<open>The user of a line of \<^verbatim>\<open>getent passwd\<close>, when it is one to report.\<close>

definition passwd_user :: "string \<Rightarrow> string option" where
  "passwd_user line =
     (let parts = split_on CHR '':'' line in
      if line = [] \<or> length parts \<noteq> 7 then None
      else case atoi (parts ! 2) of None \<Rightarrow> None
      | Some uid \<Rightarrow> if isValidSSHUser uid (parts ! 6) then Some (parts ! 0) else None)"

definition capUsers :: "string list \<Rightarrow> string list" where
  "capUsers users = (let us = sort users in if length us > maxReportedUsers then take maxReportedUsers us else us)"

definition SystemUsers :: "string option \<Rightarrow> string list" where
  "SystemUsers output =
     (case output of None \<Rightarrow> []
      | Some out \<Rightarrow> capUsers (List.map_filter passwd_user (split_on CHR 0x0A out)))"

section \<open>Addresses\<close>

definition noisePrefixes :: "string list" where
  "noisePrefixes =
     [''docker'', ''veth'', ''br-'', ''virbr'', ''vmnet'', ''vboxnet'', ''vnic'', ''vethernet'', ''lo'', ''dummy'', ''teql'', ''gre'',
      ''sit'', ''ip6tnl'', ''ip6gre'', ''cali'', ''flannel'', ''cni'', ''kube'', ''weave'', ''cilium'', ''antrea'', ''podman'', ''containerd'']"

definition tunnelPrefixes :: "string list" where
  "tunnelPrefixes = [''wg'', ''tun'', ''tap'', ''utun'', ''ppp'']"

text \<open>\<^verbatim>\<open>strings.ToLower\<close> with the tables of the package \<^verbatim>\<open>unicode\<close>.\<close>

definition to_lower :: "unicode_tables \<Rightarrow> string \<Rightarrow> string" where
  "to_lower u s = concat (map (\<lambda>r. encode_rune (ToLower u r)) (runes s))"

fun str_contains :: "string \<Rightarrow> string \<Rightarrow> bool" where
  "str_contains [] p = (p = [])"
| "str_contains (c # s) p = (has_prefix (c # s) p \<or> str_contains s p)"

definition hasAnyPrefix :: "unicode_tables \<Rightarrow> string \<Rightarrow> string list \<Rightarrow> bool" where
  "hasAnyPrefix u name ps = list_ex (has_prefix (to_lower u name)) ps"

definition isNoiseInterface :: "unicode_tables \<Rightarrow> string \<Rightarrow> bool" where
  "isNoiseInterface u name =
     (str_contains (to_lower u name) ''hyper-v'' \<or> hasAnyPrefix u (to_lower u name) noisePrefixes)"

definition isPublicOrPrivateNIC :: "netip_addr \<Rightarrow> bool" where
  "isPublicOrPrivateNIC ip =
     (\<not> (ip = AddrZero \<or> is_loopback ip \<or> is_link_local_unicast ip \<or> is_multicast ip \<or> is_unspecified ip))"

text \<open>An interface; an address is \<^const>\<open>None\<close> when it is no network address or has no valid length.\<close>

record net_interface =
  ifName :: string
  ifUp :: bool
  ifLoopback :: bool
  ifPointToPoint :: bool
  ifAddrs :: "netip_addr option list option"

definition usable_interface :: "unicode_tables \<Rightarrow> net_interface \<Rightarrow> bool" where
  "usable_interface u i =
     (ifUp i \<and> \<not> ifLoopback i \<and> \<not> (ifPointToPoint i \<and> \<not> hasAnyPrefix u (ifName i) tunnelPrefixes) \<and>
      \<not> isNoiseInterface u (ifName i))"

definition usable_addr :: "netip_addr option \<Rightarrow> netip_addr option" where
  "usable_addr a =
     (case a of None \<Rightarrow> None
      | Some ip0 \<Rightarrow> let ip = unmap ip0 in if is4 ip \<and> isPublicOrPrivateNIC ip then Some ip else None)"

text \<open>The two loops with the return once two addresses are found.\<close>

fun scan_addrs :: "string list \<Rightarrow> netip_addr option list \<Rightarrow> string list" where
  "scan_addrs ips [] = ips"
| "scan_addrs ips (a # as) =
     (case usable_addr a of None \<Rightarrow> scan_addrs ips as
      | Some ip \<Rightarrow>
          let ips' = ips @ [addr_string ip] in if length ips' \<ge> 2 then ips' else scan_addrs ips' as)"

fun scan_interfaces :: "unicode_tables \<Rightarrow> string list \<Rightarrow> net_interface list \<Rightarrow> string list" where
  "scan_interfaces u ips [] = ips"
| "scan_interfaces u ips (i # is) =
     (if \<not> usable_interface u i then scan_interfaces u ips is
      else case ifAddrs i of None \<Rightarrow> scan_interfaces u ips is
      | Some as \<Rightarrow>
          let ips' = scan_addrs ips as in if length ips' \<ge> 2 then ips' else scan_interfaces u ips' is)"

definition PrivateIPs :: "unicode_tables \<Rightarrow> net_interface list option \<Rightarrow> string list" where
  "PrivateIPs u ifaces = (case ifaces of None \<Rightarrow> [] | Some is \<Rightarrow> scan_interfaces u [] is)"

definition sshEndpoints :: "unicode_tables \<Rightarrow> net_interface list option \<Rightarrow> nat \<Rightarrow> string list" where
  "sshEndpoints u ifaces port = map (\<lambda>ip. join_host_port ip (itoa (int port))) (PrivateIPs u ifaces)"

section \<open>The process and its host\<close>

definition IsRoot :: "nat \<Rightarrow> bool" where "IsRoot euid = (euid = 0)"

text \<open>\<^verbatim>\<open>Metadata\<close>: a host name that cannot be read is empty.\<close>

definition Metadata :: "string option \<Rightarrow> string \<Rightarrow> string \<Rightarrow> (string \<rightharpoonup> string)" where
  "Metadata hostname goos goarch =
     [''hostname'' \<mapsto> (case hostname of None \<Rightarrow> '''' | Some h \<Rightarrow> h), ''os'' \<mapsto> goos, ''arch'' \<mapsto> goarch]"

section \<open>Files\<close>

definition dataDir :: "string \<Rightarrow> string" where
  "dataDir env = (if env \<noteq> '''' then env else ''/var/lib/nokkud'')"

definition RecordsDir where "RecordsDir env = path_join [dataDir env, ''recordings'']"
definition ConfigFile where "ConfigFile env = path_join [dataDir env, ''config.json'']"
definition CacheFile where "CacheFile env = path_join [dataDir env, ''cache.json'']"
definition SignerStateFile where "SignerStateFile env = path_join [dataDir env, ''state.json'']"
definition HostSignerStateFile where "HostSignerStateFile env = path_join [dataDir env, ''ssh_host_signer.json'']"
definition HostKeyPub where "HostKeyPub env = path_join [dataDir env, ''ssh_host_ecdsa_key.pub'']"
definition HostKeyCert where "HostKeyCert env = path_join [dataDir env, ''ssh_host_ecdsa_key-cert.pub'']"

text \<open>\<^verbatim>\<open>Verify\<close>: the directories it makes and secures, up to the first failure.\<close>

datatype fs_op = MkdirAll string | Chmod string

fun do_ops :: "(fs_op \<Rightarrow> bool) \<Rightarrow> fs_op list \<Rightarrow> fs_op list \<times> fs_op option" where
  "do_ops ok [] = ([], None)"
| "do_ops ok (op # ops) =
     (if ok op then (case do_ops ok ops of (done, e) \<Rightarrow> (op # done, e)) else ([], Some op))"

definition Verify :: "(fs_op \<Rightarrow> bool) \<Rightarrow> string \<Rightarrow> fs_op list \<times> fs_op option" where
  "Verify ok env = do_ops ok [MkdirAll (dataDir env), Chmod (dataDir env), MkdirAll (RecordsDir env)]"

section \<open>What is reported\<close>

text \<open>The accounts reported are the first of the sorted list: sorted, at most 200, each the name of an entry of the
  accounts with a usable id and a login shell, with no usable account left out that sorts before one
  that is in, and none at all when they fit.
\<close>
theorem reported_users:
  fixes out :: string
  defines "all \<equiv> List.map_filter passwd_user (split_on CHR 0x0A out)"
  shows "sorted (SystemUsers (Some out)) \<and> length (SystemUsers (Some out)) \<le> 200 \<and>
    (\<exists>rest. mset all = mset (SystemUsers (Some out)) + mset rest \<and>
       (\<forall>u \<in> set (SystemUsers (Some out)). \<forall>v \<in> set rest. u \<le> v) \<and> (length all \<le> 200 \<longrightarrow> rest = []))"
proof -
  have s: "SystemUsers (Some out) = take 200 (sort all)"
    by (simp add: SystemUsers_def capUsers_def Let_def all_def maxReportedUsers_def)
  define rest where "rest = drop 200 (sort all)"
  have split: "sort all = SystemUsers (Some out) @ rest" by (simp add: s rest_def)
  moreover have "sorted (sort all)" by simp
  ultimately have so: "sorted (SystemUsers (Some out))" "\<forall>u \<in> set (SystemUsers (Some out)). \<forall>v \<in> set rest. u \<le> v"
    by (simp_all add: sorted_append)
  have "mset all = mset (sort all)" by simp
  also have "\<dots> = mset (SystemUsers (Some out)) + mset rest" unfolding split by simp
  finally show ?thesis using so by (auto simp: s rest_def)
qed

text \<open>An address that may be reported: a plain IPv4 address of a usable interface.\<close>

definition reachable_addr :: "unicode_tables \<Rightarrow> net_interface list \<Rightarrow> string \<Rightarrow> bool" where
  "reachable_addr u is s \<longleftrightarrow>
     (\<exists>i \<in> set is. \<exists>as a ip. usable_interface u i \<and> ifAddrs i = Some as \<and> a \<in> set as \<and> usable_addr a = Some ip \<and> s = addr_string ip)"

lemma scan_addrs_new:
  "\<exists>new. scan_addrs ips as = ips @ new \<and> (\<forall>s \<in> set new. \<exists>a ip. a \<in> set as \<and> usable_addr a = Some ip \<and> s = addr_string ip) \<and>
     (length ips < 2 \<longrightarrow> length (ips @ new) \<le> 2)"
proof (induction as arbitrary: ips)
  case (Cons a as)
  show ?case
  proof (cases "usable_addr a")
    case None
    with Cons [of ips] show ?thesis by (fastforce intro: bexI)
  next
    case (Some ip)
    show ?thesis
    proof (cases "length ips \<ge> 1")
      case True
      with Some show ?thesis by (auto intro!: exI [of _ "[addr_string ip]"])
    next
      case False
      from Cons [of "ips @ [addr_string ip]"] obtain new where
        "scan_addrs (ips @ [addr_string ip]) as = (ips @ [addr_string ip]) @ new"
        "\<forall>s \<in> set new. \<exists>a ip. a \<in> set as \<and> usable_addr a = Some ip \<and> s = addr_string ip"
        "length (ips @ [addr_string ip]) < 2 \<longrightarrow> length ((ips @ [addr_string ip]) @ new) \<le> 2" by blast
      moreover from False have "ips = []" by (cases ips) auto
      ultimately show ?thesis using Some by (intro exI [of _ "addr_string ip # new"]) fastforce
    qed
  qed
qed simp

lemma reachable_addr_Cons: "reachable_addr u is s \<Longrightarrow> reachable_addr u (i # is) s"
  by (auto simp: reachable_addr_def)

lemma scan_interfaces_new:
  "\<exists>new. scan_interfaces u ips is = ips @ new \<and> (\<forall>s \<in> set new. reachable_addr u is s) \<and>
     (length ips < 2 \<longrightarrow> length (ips @ new) \<le> 2)"
proof (induction "is" arbitrary: ips)
  case (Cons i "is")
  show ?case
  proof (cases "usable_interface u i \<and> ifAddrs i \<noteq> None")
    case False
    with Cons [of ips] show ?thesis by (auto intro: reachable_addr_Cons split: option.splits)
  next
    case True
    then obtain as where as: "ifAddrs i = Some as" by blast
    from scan_addrs_new [of ips as] obtain new where new: "scan_addrs ips as = ips @ new"
      "\<forall>s \<in> set new. \<exists>a ip. a \<in> set as \<and> usable_addr a = Some ip \<and> s = addr_string ip"
      "length ips < 2 \<longrightarrow> length (ips @ new) \<le> 2" by blast
    have here: "\<forall>s \<in> set new. reachable_addr u (i # is) s"
      using new(2) True as unfolding reachable_addr_def by (meson list.set_intros(1))
    show ?thesis
    proof (cases "length (ips @ new) \<ge> 2")
      case len: True
      then show ?thesis using True as new here by (intro exI [of _ new]) (simp add: Let_def)
    next
      case len: False
      from Cons [of "ips @ new"] obtain more where "scan_interfaces u (ips @ new) is = (ips @ new) @ more"
        "\<forall>s \<in> set more. reachable_addr u is s" "length (ips @ new) < 2 \<longrightarrow> length ((ips @ new) @ more) \<le> 2" by blast
      with len True as new here show ?thesis
        by (intro exI [of _ "new @ more"]) (auto simp: Let_def intro: reachable_addr_Cons)
    qed
  qed
qed simp

text \<open>The endpoints reported can be dialled: at most two, each the text of an IPv4 address of an interface
  that is up and no plumbing of containers, and neither a loopback, a link-local, a multicast nor the unspecified address,
  with the port of the server behind it.
\<close>
theorem reported_endpoints:
  "length (sshEndpoints u ifaces port) \<le> 2 \<and>
   (\<forall>e \<in> set (sshEndpoints u ifaces port). \<exists>is i w. ifaces = Some is \<and> i \<in> set is \<and> ifUp i \<and> \<not> ifLoopback i \<and>
      \<not> isNoiseInterface u (ifName i) \<and> \<not> is_loopback (Addr4 w) \<and> \<not> is_link_local_unicast (Addr4 w) \<and>
      \<not> is_multicast (Addr4 w) \<and> w \<noteq> 0 \<and> e = join_host_port (addr_string (Addr4 w)) (itoa (int port)))"
proof (cases ifaces)
  case None
  then show ?thesis by (simp add: sshEndpoints_def PrivateIPs_def)
next
  case (Some "is")
  from scan_interfaces_new [of u "[]" "is"] obtain ips where ips: "PrivateIPs u ifaces = ips" "length ips \<le> 2"
    "\<forall>s \<in> set ips. reachable_addr u is s" by (auto simp: PrivateIPs_def Some)
  have from_iface: "\<exists>i w. i \<in> set is \<and> ifUp i \<and> \<not> ifLoopback i \<and> \<not> isNoiseInterface u (ifName i) \<and> \<not> is_loopback (Addr4 w) \<and>
      \<not> is_link_local_unicast (Addr4 w) \<and> \<not> is_multicast (Addr4 w) \<and> w \<noteq> 0 \<and> s = addr_string (Addr4 w)"
    if "s \<in> set ips" for s
  proof -
    from ips(3) that obtain i a ip where i: "i \<in> set is" "usable_interface u i" "usable_addr a = Some ip" "s = addr_string ip"
      by (auto simp: reachable_addr_def)
    then obtain w where "ip = Addr4 w" "isPublicOrPrivateNIC (Addr4 w)"
      by (auto simp: usable_addr_def Let_def is4_def split: option.splits if_splits netip_addr.splits)
    with i show ?thesis by (auto simp: usable_interface_def isPublicOrPrivateNIC_def is_unspecified_def)
  qed
  have eps: "sshEndpoints u ifaces port = map (\<lambda>s. join_host_port s (itoa (int port))) ips"
    using ips(1) by (simp add: sshEndpoints_def)
  have "\<exists>is i w. ifaces = Some is \<and> i \<in> set is \<and> ifUp i \<and> \<not> ifLoopback i \<and>
      \<not> isNoiseInterface u (ifName i) \<and> \<not> is_loopback (Addr4 w) \<and> \<not> is_link_local_unicast (Addr4 w) \<and>
      \<not> is_multicast (Addr4 w) \<and> w \<noteq> 0 \<and> e = join_host_port (addr_string (Addr4 w)) (itoa (int port))"
    if "e \<in> set (sshEndpoints u ifaces port)" for e
    using that eps from_iface Some by fastforce
  then show ?thesis using eps ips(2) by simp
qed

section \<open>Where files are\<close>

text \<open>A directory that cannot be made or secured stops the start; nothing after it is done.\<close>

lemma verify_in_order:
  "Verify ok env = (ops, e) \<Longrightarrow>
     e = None \<and> ops = [MkdirAll (dataDir env), Chmod (dataDir env), MkdirAll (RecordsDir env)] \<or>
     (\<exists>op rest. e = Some op \<and> \<not> ok op \<and> [MkdirAll (dataDir env), Chmod (dataDir env), MkdirAll (RecordsDir env)] = ops @ op # rest)"
  by (auto simp: Verify_def split: if_splits)

end
