(* ===== verification/Enrollment.thy ===== *)
theory Enrollment
  imports Host_Certs Client_Run Host_Report
begin

text \<open>
  Starting, enrolling and resetting the daemon: \<^verbatim>\<open>main.go\<close>, \<^verbatim>\<open>New\<close>, \<^verbatim>\<open>enroll\<close> and \<^verbatim>\<open>Unenroll\<close> of
  \<^verbatim>\<open>internal/client/client.go\<close>. What the file system, the backend, the terminal and the flags give are
  arguments; \<^verbatim>\<open>url.Parse\<close> is one too, with the scheme and the host name it finds.
\<close>

section \<open>The state of the host\<close>

text \<open>
  The cache and the configuration in memory, and the data directory: the two as they were last
  saved and the files of the host key.
\<close>

record host_state =
  hsCache :: cacheJSON
  hsConfig :: config
  hsDiskCache :: "cacheJSON option"
  hsDiskConfig :: "config option"
  hsHost :: host_disk

definition save_config :: "bool \<Rightarrow> host_state \<Rightarrow> host_state" where
  "save_config ok h = (if ok then h\<lparr>hsDiskConfig := Some (hsConfig h)\<rparr> else h)"

text \<open>\<^verbatim>\<open>paths.Cleanup\<close>: the data directory is removed, or its removal fails.\<close>

definition Cleanup :: "bool \<Rightarrow> host_state \<Rightarrow> host_state" where
  "Cleanup ok h =
     (if ok then h\<lparr>hsDiskCache := None, hsDiskConfig := None, hsHost := \<lparr>hostPub = None, hostCert = None\<rparr>\<rparr> else h)"

section \<open>Loading\<close>

type_synonym url_parser = "string \<Rightarrow> (string \<times> string) option"

definition checkAPIURL :: "url_parser \<Rightarrow> string \<Rightarrow> bool" where
  "checkAPIURL parse_url raw =
     (case parse_url raw of None \<Rightarrow> False
      | Some (scheme, hostname) \<Rightarrow>
          let ip = (case parse_addr hostname of None \<Rightarrow> AddrZero | Some a \<Rightarrow> a) in
          scheme = ''https'' \<or> scheme = ''http'' \<and> (hostname = ''localhost'' \<or> is_loopback ip))"

definition trim_right_slashes :: "string \<Rightarrow> string" where
  "trim_right_slashes s = rev (dropWhile (\<lambda>c. c = CHR ''/'') (rev s))"

text \<open>The flags, and what the steps of \<^verbatim>\<open>loadState\<close> meet.\<close>

record load_io =
  ldDir :: string
  ldVerify :: "fs_op \<Rightarrow> bool"
  ldCache :: "cacheJSON option"
  ldConfig :: "config option"
  ldAPI :: string
  ldAPISet :: bool
  ldCAFile :: string
  ldCARead :: "string option"
  ldCAParses :: bool
  ldSave :: bool

datatype start_error =
    ErrNotRoot | ErrDataDir | ErrLoadCache | ErrLoadConfig | ErrAPIURL | ErrCAFile | ErrCABundle | ErrSaveConfig
  | ErrNotEnrolled | ErrNoToken | ErrReadToken | ErrBootstrap | ErrTrustPool | ErrHTTPClient
  | ErrIdentityChanged | ErrSigner | ErrEnrollCall | ErrEnrollIncomplete | ErrDropHostCert | ErrSaveCache
  | ErrServer | ErrListen | ErrRejected

definition loadState :: "url_parser \<Rightarrow> load_io \<Rightarrow> host_disk \<Rightarrow> start_error + host_state" where
  "loadState parse_url io hdisk =
     (if snd (Verify (ldVerify io) (ldDir io)) \<noteq> None then Inl ErrDataDir
      else case ldCache io of None \<Rightarrow> Inl ErrLoadCache
      | Some cache \<Rightarrow>
          (case ldConfig io of None \<Rightarrow> Inl ErrLoadConfig
           | Some stored \<Rightarrow>
               let api = trim_right_slashes (ldAPI io);
                   cfg1 = (if ldAPISet io \<and> api \<noteq> APIURL stored then stored\<lparr>APIURL := api, APICA := ''''\<rparr> else stored);
                   cfg2 = (if APIURL cfg1 = '''' then cfg1\<lparr>APIURL := DefaultAPIURL\<rparr> else cfg1);
                   finish = (\<lambda>cfg.
                     if ldSave io
                     then Inr \<lparr>hsCache = cache, hsConfig = cfg, hsDiskCache = Some cache, hsDiskConfig = Some cfg, hsHost = hdisk\<rparr>
                     else Inl ErrSaveConfig)
               in if \<not> checkAPIURL parse_url (APIURL cfg2) then Inl ErrAPIURL
                  else if ldCAFile io = '''' then finish cfg2
                  else (case ldCARead io of None \<Rightarrow> Inl ErrCAFile
                    | Some ca \<Rightarrow> if \<not> ldCAParses io then Inl ErrCABundle else finish (cfg2\<lparr>APICA := ca\<rparr>))))"

section \<open>Enrolling\<close>

record enroll_response =
  erTargetID :: string
  erID :: string
  erToken :: string
  erConfig :: "daemon_config option"

datatype remove_result = Removed | NotThere | RemoveFailed

record enroll_io =
  enAnswer :: "enroll_response option"
  enRemove :: remove_result
  enConfigSave :: bool
  enCacheSave :: bool

definition client_enroll :: "enroll_io \<Rightarrow> host_state \<Rightarrow> host_state \<times> start_error option" where
  "client_enroll io h =
     (case enAnswer io of None \<Rightarrow> (h, Some ErrEnrollCall)
      | Some r \<Rightarrow>
          if erTargetID r = '''' \<or> erID r = '''' \<or> erToken r = '''' then (h, Some ErrEnrollIncomplete)
          else
            let h1 = h\<lparr>hsCache := Clear (hsCache h)\<rparr> in
            if enRemove io = RemoveFailed then (h1, Some ErrDropHostCert)
            else
              let h2 = h1\<lparr>hsHost := (hsHost h1)\<lparr>hostCert := None\<rparr>,
                        hsConfig := (hsConfig h1)\<lparr>TargetID := erTargetID r, DaemonID := erID r, SessionToken := erToken r\<rparr>,
                        hsCache := SetDaemonConfig (hsCache h1) (erConfig r)\<rparr>;
                  h3 = save_config (enConfigSave io) h2
              in if \<not> enConfigSave io then (h3, Some ErrSaveConfig)
                 else if \<not> enCacheSave io then (h3, Some ErrSaveCache)
                 else (h3\<lparr>hsDiskCache := Some (hsCache h3)\<rparr>, None))"

text \<open>
  \<^verbatim>\<open>client.New\<close> and \<^verbatim>\<open>newDaemonClient\<close>: the pool of roots, the HTTP client and the signer of the host,
  then the enrollment when a token is given. The last part tells whether the backend was asked to enroll.
\<close>

datatype signer_result = SignerReady | SignerChanged | SignerFailed

record client_io =
  cnPool :: bool
  cnHTTP :: bool
  cnSigner :: signer_result
  cnEnroll :: enroll_io

definition newDaemonClient :: "client_io \<Rightarrow> string \<Rightarrow> host_state \<Rightarrow> host_state \<times> start_error option \<times> bool" where
  "newDaemonClient io token h =
     (if \<not> cnPool io then (h, Some ErrTrustPool, False)
      else if \<not> cnHTTP io then (h, Some ErrHTTPClient, False)
      else case cnSigner io of SignerChanged \<Rightarrow> (h, Some ErrIdentityChanged, False)
      | SignerFailed \<Rightarrow> (h, Some ErrSigner, False)
      | SignerReady \<Rightarrow>
          if token = '''' then (h, None, False)
          else case client_enroll (cnEnroll io) h of (h', e) \<Rightarrow> (h', e, True))"

text \<open>\<^verbatim>\<open>enrollHost\<close>: with a token and a pin the CA of the backend is fetched and saved first.\<close>

definition enrollHost ::
    "string \<Rightarrow> string option \<Rightarrow> bool \<Rightarrow> client_io \<Rightarrow> string \<Rightarrow> host_state \<Rightarrow> host_state \<times> start_error option \<times> bool"
where
  "enrollHost pin bootstrap save_ok io token h =
     (if token \<noteq> '''' \<and> pin \<noteq> '''' then
        (case bootstrap of None \<Rightarrow> (h, Some ErrBootstrap, False)
         | Some ca \<Rightarrow>
             let h1 = save_config save_ok (h\<lparr>hsConfig := (hsConfig h)\<lparr>APICA := ca\<rparr>\<rparr>) in
             if \<not> save_ok then (h1, Some ErrSaveConfig, False) else newDaemonClient io token h1)
      else newDaemonClient io token h)"

definition enrollToken :: "string \<Rightarrow> bool \<Rightarrow> string option \<Rightarrow> start_error + string" where
  "enrollToken env terminal secret =
     (if env \<noteq> '''' then Inr env
      else if \<not> terminal then Inl ErrNoToken
      else case secret of None \<Rightarrow> Inl ErrReadToken | Some s \<Rightarrow> Inr (trim_space s))"

text \<open>The command \<^verbatim>\<open>enroll\<close>; no error means that it prints that the host is enrolled.\<close>

definition enroll_command ::
    "nat \<Rightarrow> url_parser \<Rightarrow> load_io \<Rightarrow> host_disk \<Rightarrow> string \<Rightarrow> bool \<Rightarrow> string option \<Rightarrow> string \<Rightarrow> string option \<Rightarrow> bool \<Rightarrow>
     client_io \<Rightarrow> start_error + (host_state \<times> bool)"
where
  "enroll_command euid parse_url lio hdisk env terminal secret pin bootstrap save_ok cio =
     (if \<not> IsRoot euid then Inl ErrNotRoot
      else case loadState parse_url lio hdisk of Inl e \<Rightarrow> Inl e
      | Inr h \<Rightarrow>
          (case enrollToken env terminal secret of Inl e \<Rightarrow> Inl e
           | Inr token \<Rightarrow>
               (case enrollHost pin bootstrap save_ok cio token h of
                  (h', Some e, asked) \<Rightarrow> Inl e
                | (h', None, asked) \<Rightarrow> Inr (h', asked))))"

section \<open>Running and resetting\<close>

text \<open>
  The command \<^verbatim>\<open>run\<close>: the state is loaded, an unenrolled host enrolls with the token of the
  environment, the host key is loaded and the server built from the cache, then the client runs
  until it stops or is rejected. The files that the certificate watcher wrote in the meantime are an argument.
\<close>

record run_io =
  rnParseKey :: key_parser
  rnLib :: ssh_lib
  rnCertOk :: "certificate \<Rightarrow> bytes \<Rightarrow> bool"
  rnSigner :: "(bytes \<times> string) option"
  rnWriteKey :: bool
  rnRemoveCert :: bool
  rnSSHSigner :: bool
  rnListenOk :: bool
  rnAddrOk :: bool
  rnFirst :: sync_io
  rnRounds :: "run_round list"
  rnWatched :: "host_disk \<Rightarrow> host_disk"
  rnCleanupOk :: bool

datatype run_outcome = Ended "start_error option" | StillRunning

definition is_ephemeral :: "cacheJSON \<Rightarrow> bool" where
  "is_ephemeral c = (case DaemonConfig c of None \<Rightarrow> False | Some d \<Rightarrow> Ephemeral d)"

text \<open>\<^verbatim>\<open>unenroll\<close>: the backend is asked to delete the daemon and the local state goes, whatever it answers.\<close>

definition unenroll :: "bool \<Rightarrow> host_state \<Rightarrow> host_state" where
  "unenroll cleanup_ok h = Cleanup cleanup_ok h"

definition client_of :: "server \<Rightarrow> host_state \<Rightarrow> client" where
  "client_of s h = \<lparr>clCache = hsCache h, clSrv = s, clConfig = hsConfig h, diskCache = hsDiskCache h,
     diskConfig = hsDiskConfig h, renewWanted = False\<rparr>"

definition host_of :: "client \<Rightarrow> host_disk \<Rightarrow> host_state" where
  "host_of c d = \<lparr>hsCache = clCache c, hsConfig = clConfig c, hsDiskCache = diskCache c, hsDiskConfig = diskConfig c, hsHost = d\<rparr>"

text \<open>The part of \<^verbatim>\<open>run\<close> after the enrollment: the state, whether the backend was asked to delete the daemon, and the end.\<close>

definition serve_host :: "run_io \<Rightarrow> host_state \<Rightarrow> host_state \<times> bool \<times> run_outcome" where
  "serve_host rio h =
     (case loadHostKey (rnSigner rio) (rnWriteKey rio) (rnRemoveCert rio) (rnSSHSigner rio) (hsHost h) of (d, key) \<Rightarrow>
        let h1 = h\<lparr>hsHost := d\<rparr> in
        (case boot_server (rnParseKey rio) (rnCertOk rio) (LoadCert (rnLib rio) d) key (hsCache h) of
           Inl e \<Rightarrow> (h1, False, Ended (Some ErrServer))
         | Inr s \<Rightarrow>
             if \<not> rnListenOk rio \<or> \<not> rnAddrOk rio then (h1, False, Ended (Some ErrListen))
             else
               (case client_Run (rnParseKey rio) (rnFirst rio) (rnRounds rio) (client_of s h1) of (r, ws, e) \<Rightarrow>
                  let h2 = host_of (rsClient r) (rnWatched rio d) in
                  (case e of
                     RunGoing \<Rightarrow> (h2, False, StillRunning)
                   | RunRejected \<Rightarrow> (h2, False, Ended (Some ErrRejected))
                   | RunStopped \<Rightarrow>
                       if is_ephemeral (hsCache h2) then (unenroll (rnCleanupOk rio) h2, True, Ended None)
                       else (h2, False, Ended None)))))"

definition run_command ::
    "nat \<Rightarrow> url_parser \<Rightarrow> load_io \<Rightarrow> host_disk \<Rightarrow> string \<Rightarrow> string \<Rightarrow> string option \<Rightarrow> bool \<Rightarrow> client_io \<Rightarrow> run_io \<Rightarrow>
     (host_state option \<times> bool \<times> bool) \<times> run_outcome"
where
  "run_command euid parse_url lio hdisk env pin bootstrap save_ok cio rio =
     (if \<not> IsRoot euid then ((None, False, False), Ended (Some ErrNotRoot))
      else case loadState parse_url lio hdisk of Inl e \<Rightarrow> ((None, False, False), Ended (Some e))
      | Inr h \<Rightarrow>
          let token = (if DaemonID (hsConfig h) = '''' then env else '''') in
          if DaemonID (hsConfig h) = '''' \<and> token = '''' then ((Some h, False, False), Ended (Some ErrNotEnrolled))
          else (case enrollHost pin bootstrap save_ok cio token h of
              (h1, Some e, asked) \<Rightarrow> ((Some h1, asked, False), Ended (Some e))
            | (h1, None, asked) \<Rightarrow>
                (case serve_host rio h1 of (h2, deleted, e) \<Rightarrow> ((Some h2, asked, deleted), e))))"

text \<open>The command \<^verbatim>\<open>reset\<close>: the data directory goes in every case. The result tells whether the backend was asked.\<close>

definition reset_command ::
    "nat \<Rightarrow> url_parser \<Rightarrow> load_io \<Rightarrow> host_disk \<Rightarrow> client_io \<Rightarrow> bool \<Rightarrow> host_state \<Rightarrow> start_error + (host_state \<times> bool)"
where
  "reset_command euid parse_url lio hdisk cio cleanup_ok h =
     (if \<not> IsRoot euid then Inl ErrNotRoot
      else case loadState parse_url lio hdisk of Inl e \<Rightarrow> Inr (Cleanup cleanup_ok h, False)
      | Inr h0 \<Rightarrow>
          (case newDaemonClient cio '''' h0 of
             (h1, Some e, asked) \<Rightarrow> Inr (Cleanup cleanup_ok h1, False)
           | (h1, None, asked) \<Rightarrow> Inr (unenroll cleanup_ok h1, True)))"

section \<open>What a start may trust\<close>

lemma loadState_Inr:
  assumes "loadState parse_url io hdisk = Inr h"
  obtains stored cache where "ldCache io = Some cache" "ldConfig io = Some stored"
    "checkAPIURL parse_url (APIURL (hsConfig h))" "hsCache h = cache" "hsDiskConfig h = Some (hsConfig h)"
    "TargetID (hsConfig h) = TargetID stored" "DaemonID (hsConfig h) = DaemonID stored"
    "SessionToken (hsConfig h) = SessionToken stored"
    "ldCAFile io \<noteq> '''' \<longrightarrow> ldCARead io = Some (APICA (hsConfig h)) \<and> ldCAParses io"
    "ldCAFile io = '''' \<longrightarrow> APICA (hsConfig h) = '''' \<or>
       APICA (hsConfig h) = APICA stored \<and>
         (APIURL stored = APIURL (hsConfig h) \<or> APIURL stored = '''' \<and> APIURL (hsConfig h) = DefaultAPIURL)"
  using assms
  by (auto simp: loadState_def Let_def split: if_splits option.splits)

text \<open>C28.
  A start trusts the backend it was enrolled with. The API of a loaded configuration uses https, or http
  to the host itself; the CA it is checked with is the one of the CA file when that flag is given, and
  otherwise the stored one only for the stored API, or for the default one when none is stored, never for
  another; and neither flag touches the identity.
\<close>
theorem load_state_trust:
  assumes "loadState parse_url io hdisk = Inr h"
  shows "(\<exists>scheme host. parse_url (APIURL (hsConfig h)) = Some (scheme, host) \<and>
      (scheme = ''https'' \<or> scheme = ''http'' \<and>
        (host = ''localhost'' \<or> (\<exists>ip. parse_addr host = Some ip \<and> is_loopback ip)))) \<and>
    (\<exists>stored. ldConfig io = Some stored \<and> DaemonID (hsConfig h) = DaemonID stored \<and>
       SessionToken (hsConfig h) = SessionToken stored \<and>
       (ldCAFile io \<noteq> '''' \<longrightarrow> ldCARead io = Some (APICA (hsConfig h)) \<and> ldCAParses io) \<and>
       (ldCAFile io = '''' \<and> APICA (hsConfig h) \<noteq> '''' \<longrightarrow> APICA (hsConfig h) = APICA stored \<and>
          (APIURL stored = APIURL (hsConfig h) \<or> APIURL stored = '''' \<and> APIURL (hsConfig h) = DefaultAPIURL)))"
proof (rule loadState_Inr [OF assms])
  fix stored cache
  assume a: "ldConfig io = Some stored" "checkAPIURL parse_url (APIURL (hsConfig h))"
    "DaemonID (hsConfig h) = DaemonID stored" "SessionToken (hsConfig h) = SessionToken stored"
    "ldCAFile io \<noteq> '''' \<longrightarrow> ldCARead io = Some (APICA (hsConfig h)) \<and> ldCAParses io"
    "ldCAFile io = '''' \<longrightarrow> APICA (hsConfig h) = '''' \<or>
       APICA (hsConfig h) = APICA stored \<and>
         (APIURL stored = APIURL (hsConfig h) \<or> APIURL stored = '''' \<and> APIURL (hsConfig h) = DefaultAPIURL)"
  have "is_loopback AddrZero = False" by (simp add: is_loopback_def unmap_def)
  with a(2) have "\<exists>scheme host. parse_url (APIURL (hsConfig h)) = Some (scheme, host) \<and>
      (scheme = ''https'' \<or> scheme = ''http'' \<and>
        (host = ''localhost'' \<or> (\<exists>ip. parse_addr host = Some ip \<and> is_loopback ip)))"
    by (auto simp: checkAPIURL_def Let_def split: option.splits prod.splits)
  with a show ?thesis by auto
qed

section \<open>What an enrollment leaves\<close>

text \<open>C27.
  Nothing the previous backend trusted survives an enrollment. After it the host has the new identity
  in memory and on disk, the access list is empty in both, the host certificate is gone, and a server
  started from the saved cache trusts no authority until the first sync; an enrollment that the backend
  refused or answered incompletely changes nothing.
\<close>
theorem enroll_forgets_previous:
  assumes "client_enroll io h = (h', e)"
  shows "(e = None \<longrightarrow> (\<exists>r. enAnswer io = Some r \<and> DaemonID (hsConfig h') = erID r \<and> SessionToken (hsConfig h') = erToken r \<and>
        TargetID (hsConfig h') = erTargetID r \<and> erID r \<noteq> '''') \<and>
      hsDiskConfig h' = Some (hsConfig h') \<and> hsDiskCache h' = Some (hsCache h') \<and>
      CertPrincipals (hsCache h') u = [] \<and> CAs (hsCache h') = ('''', []) \<and> hostCert (hsHost h') = None \<and>
      (\<forall>parse_key ok stored hk s w now. boot_server parse_key ok stored hk (hsCache h') = Inr s \<longrightarrow> \<not> trustedCAWire now s w)) \<and>
    (e = Some ErrEnrollCall \<or> e = Some ErrEnrollIncomplete \<longrightarrow> h' = h)"
proof -
  have boot: "\<not> trustedCAWire now s w" if "boot_server parse_key ok stored hk c = Inr s" "CAs c = ('''', [])"
    for parse_key ok stored hk c s w now
    using that by (auto simp: boot_server_def NewServer_def Reload_def SetTrust_def trustedCAWire_def split: option.splits)
  have ca: "CAs (SetDaemonConfig (Clear c) dc) = ('''', [])" "CertPrincipals (SetDaemonConfig (Clear c) dc) u = []" for c dc
    by (simp_all add: CAs_def SetDaemonConfig_def Clear_def NewCache_def CertPrincipals_def)
  show ?thesis
    using assms
    by (auto simp: client_enroll_def save_config_def Let_def ca split: option.splits if_splits dest: boot [OF _ ca(1)])
qed

text \<open>An enrollment that cannot save the cache leaves the old trust behind the new identity: the configuration
  is saved first, so when the second write fails the host is enrolled with the new backend while
  the access list and the authority of the previous one are still on disk for the next start.
\<close>
theorem interrupted_enroll_keeps_old_trust:
  assumes "enAnswer io = Some r" "erTargetID r \<noteq> ''''" "erID r \<noteq> ''''" "erToken r \<noteq> ''''"
    and "enRemove io \<noteq> RemoveFailed" "enConfigSave io" "\<not> enCacheSave io"
  shows "\<exists>h' cfg. client_enroll io h = (h', Some ErrSaveCache) \<and> hsDiskConfig h' = Some cfg \<and>
    DaemonID cfg = erID r \<and> SessionToken cfg = erToken r \<and> hsDiskCache h' = hsDiskCache h"
  using assms by (simp add: client_enroll_def save_config_def Let_def)

text \<open>A blank token at the prompt is reported as an enrollment: the command ends without an error, although
  the backend was never asked and the host has no identity.
\<close>
theorem blank_token_reports_enrolled:
  assumes "loadState parse_url lio hdisk = Inr h" "trim_space s = ''''"
    and "cnPool cio" "cnHTTP cio" "cnSigner cio = SignerReady"
  shows "enroll_command 0 parse_url lio hdisk '''' True (Some s) pin bootstrap save_ok cio = Inr (h, False)"
  using assms by (simp add: enroll_command_def IsRoot_def enrollToken_def enrollHost_def newDaemonClient_def)

section \<open>Who is enrolled\<close>

lemma newDaemonClient_asked: "newDaemonClient io '''' h = (h', e, asked) \<Longrightarrow> \<not> asked \<and> h' = h"
  by (auto simp: newDaemonClient_def split: if_splits signer_result.splits)

lemma serve_host_deleted:
  "serve_host rio h = (h', True, e) \<Longrightarrow> e = Ended None"
  by (auto simp: serve_host_def Let_def split: prod.splits sum.splits if_splits run_end.splits)

text \<open>A persistent token cannot move a host. A start of a host that has an identity never asks the backend to
  enroll, whatever the variable holds; a start of one that has none and no token ends with the error that the
  unit file does not restart, unless its state cannot be loaded at all; and the daemon is deleted from the
  backend only after a run that ended without an error.
\<close>
theorem enrolled_host_ignores_token:
  assumes "run_command 0 parse_url lio hdisk env pin bootstrap save_ok cio rio = ((h', asked, deleted), e)"
    and "ldConfig lio = Some stored"
  shows "(DaemonID stored \<noteq> '''' \<longrightarrow> \<not> asked) \<and>
    (env = '''' \<longrightarrow> \<not> asked \<and> (DaemonID stored = '''' \<longrightarrow> \<not> deleted \<and>
       (e = Ended (Some ErrNotEnrolled) \<or> (\<exists>x. loadState parse_url lio hdisk = Inl x \<and> e = Ended (Some x))))) \<and>
    (deleted \<longrightarrow> e = Ended None)"
proof (cases "loadState parse_url lio hdisk")
  case (Inl x)
  with assms show ?thesis by (auto simp: run_command_def IsRoot_def)
next
  case (Inr h)
  then have id: "DaemonID (hsConfig h) = DaemonID stored"
    using assms(2) by (elim loadState_Inr) simp
  obtain h1 e1 a1 where en: "enrollHost pin bootstrap save_ok cio (if DaemonID stored = '''' then env else '''') h = (h1, e1, a1)"
    by (rule prod_cases3)
  then have a1: "DaemonID stored \<noteq> '''' \<or> env = '''' \<longrightarrow> \<not> a1"
    by (auto simp: enrollHost_def dest: newDaemonClient_asked split: if_splits)
  show ?thesis
    using assms(1) Inr id en a1
    by (auto simp: run_command_def IsRoot_def Let_def split: if_splits option.splits prod.splits dest: serve_host_deleted)
qed

text \<open>C6.
  A rejected host stays out until it is enrolled again. When a run ends with a rejection and both files
  could be written at that moment, the data directory holds no identity, no session token, no principal of
  any account and no authority; and a start from these files without a token ends right after the state is
  loaded, with the error that the host is not enrolled, whatever the host key, the listener and the backend
  would have done: nothing is asked of the backend, the files of the host key are as they were, and there is no server.
\<close>
theorem rejected_host_stays_out:
  assumes "run_command 0 parse_url lio hdisk env pin bootstrap save_ok cio rio = ((Some h, asked, deleted), Ended (Some ErrRejected))"
    and "\<forall>s \<in> insert (rnFirst rio) (\<Union> (round_syncs ` set (rnRounds rio))).
      answered_rejected s \<longrightarrow> sioCacheOk s \<and> sioConfigOk s"
    and "ldCache lio' = hsDiskCache h" "ldConfig lio' = hsDiskConfig h"
  shows "(\<exists>c. hsDiskCache h = Some c \<and> (\<forall>u. CertPrincipals c u = []) \<and> CAs c = ('''', [])) \<and>
    (\<exists>cfg. hsDiskConfig h = Some cfg \<and> TargetID cfg = '''' \<and> DaemonID cfg = '''' \<and> SessionToken cfg = '''') \<and>
    run_command 0 parse_url' lio' hdisk' '''' pin' bootstrap' save_ok' cio' rio' =
      (case loadState parse_url' lio' hdisk' of
         Inl x \<Rightarrow> ((None, False, False), Ended (Some x))
       | Inr h' \<Rightarrow> ((Some h', False, False), Ended (Some ErrNotEnrolled)))"
proof -
  have serve: "hsDiskCache h2 = Some NewCache \<and>
      (\<exists>cfg. hsDiskConfig h2 = Some cfg \<and> TargetID cfg = '''' \<and> DaemonID cfg = '''' \<and> SessionToken cfg = '''')"
    if "serve_host rio h1 = (h2, del, Ended (Some ErrRejected))" for h1 h2 del
  proof -
    from that obtain d s r ws where r: "client_Run (rnParseKey rio) (rnFirst rio) (rnRounds rio) (client_of s (h1\<lparr>hsHost := d\<rparr>)) = (r, ws, RunRejected)"
      "h2 = host_of (rsClient r) (rnWatched rio d)"
      by (auto simp: serve_host_def Let_def split: prod.splits sum.splits if_splits run_end.splits)
    from client_Run_rejected_by [OF r(1)] assms(2) obtain c0 where "rsClient r = reject_daemon True True c0"
      unfolding rejected_by_def by (metis (full_types))
    then show ?thesis by (simp add: r(2) host_of_def reject_daemon_def save_cache_def Clear_def NewCache_def Let_def)
  qed
  have no_start: "x \<noteq> ErrRejected" if "loadState parse_url lio hdisk = Inl x" for x
    using that by (auto simp: loadState_def Let_def split: if_splits option.splits)
  have no_enroll: "x \<noteq> ErrRejected" if "enrollHost pin bootstrap save_ok cio token h0 = (h1, Some x, a)" for token h0 h1 x a
    using that
    by (auto simp: enrollHost_def newDaemonClient_def client_enroll_def Let_def
        split: if_splits option.splits prod.splits signer_result.splits)
  obtain h0 h1 a del where "serve_host rio h1 = (h, del, Ended (Some ErrRejected))"
    using assms(1) no_start no_enroll
    by (auto simp: run_command_def IsRoot_def Let_def split: sum.splits if_splits option.splits prod.splits)
  from serve [OF this] have disk: "hsDiskCache h = Some NewCache" and
    cfg: "\<exists>cfg. hsDiskConfig h = Some cfg \<and> TargetID cfg = '''' \<and> DaemonID cfg = '''' \<and> SessionToken cfg = ''''" by blast+
  have "run_command 0 parse_url' lio' hdisk' '''' pin' bootstrap' save_ok' cio' rio' =
      (case loadState parse_url' lio' hdisk' of
         Inl x \<Rightarrow> ((None, False, False), Ended (Some x))
       | Inr h' \<Rightarrow> ((Some h', False, False), Ended (Some ErrNotEnrolled)))"
  proof (cases "loadState parse_url' lio' hdisk'")
    case (Inl x)
    then show ?thesis by (simp add: run_command_def IsRoot_def)
  next
    case (Inr h3)
    then have "DaemonID (hsConfig h3) = ''''" using cfg assms(4) by (elim loadState_Inr) auto
    with Inr show ?thesis by (simp add: run_command_def IsRoot_def)
  qed
  moreover have "(\<forall>u. CertPrincipals NewCache u = []) \<and> CAs NewCache = ('''', [])"
    by (simp add: CertPrincipals_def CAs_def NewCache_def)
  ultimately show ?thesis using disk cfg by blast
qed

text \<open>A reset by root removes the local state in every case: with a state that cannot be loaded, with an
  identity that no longer fits the machine and with a backend that cannot be reached.
\<close>
theorem reset_removes_local_state:
  "\<exists>h' asked. reset_command 0 parse_url lio hdisk cio True h = Inr (h', asked) \<and>
     hsDiskCache h' = None \<and> hsDiskConfig h' = None \<and> hostPub (hsHost h') = None \<and> hostCert (hsHost h') = None"
  by (auto simp: reset_command_def IsRoot_def Cleanup_def unenroll_def split: sum.splits prod.splits option.splits)

section \<open>An example\<close>

definition ex_url :: url_parser where "ex_url s = Some (''https'', ''app.nokku.sh'')"

definition ex_stored :: config where
  "ex_stored = \<lparr>TargetID = '''', DaemonID = '''', APIURL = DefaultAPIURL, APICA = ''pem'', SessionToken = ''''\<rparr>"

definition ex_load :: load_io where
  "ex_load = \<lparr>ldDir = '''', ldVerify = (\<lambda>op. True), ldCache = Some ex_cache, ldConfig = Some ex_stored, ldAPI = '''', ldAPISet = False,
     ldCAFile = '''', ldCARead = None, ldCAParses = False, ldSave = True\<rparr>"

definition ex_loaded :: host_state where
  "ex_loaded = \<lparr>hsCache = ex_cache, hsConfig = ex_stored, hsDiskCache = Some ex_cache, hsDiskConfig = Some ex_stored,
     hsHost = ex_disk\<rparr>"

definition ex_enroll_io :: "bool \<Rightarrow> enroll_io" where
  "ex_enroll_io ok = \<lparr>enAnswer = Some \<lparr>erTargetID = ''t'', erID = ''d'', erToken = ''k'', erConfig = None\<rparr>,
     enRemove = Removed, enConfigSave = True, enCacheSave = ok\<rparr>"

definition ex_client_io :: client_io where
  "ex_client_io = \<lparr>cnPool = True, cnHTTP = True, cnSigner = SignerReady, cnEnroll = ex_enroll_io True\<rparr>"

lemma ex_loadState: "loadState ex_url ex_load ex_disk = Inr ex_loaded"
  by (simp add: loadState_def Verify_def Let_def ex_load_def ex_stored_def ex_loaded_def checkAPIURL_def ex_url_def DefaultAPIURL_def)

theorem load_state_trust_witness:
  "\<exists>scheme host. ex_url (APIURL (hsConfig ex_loaded)) = Some (scheme, host) \<and>
      (scheme = ''https'' \<or> scheme = ''http'' \<and>
        (host = ''localhost'' \<or> (\<exists>ip. parse_addr host = Some ip \<and> is_loopback ip)))"
  using load_state_trust [OF ex_loadState] by blast

theorem enroll_forgets_previous_witness:
  "\<exists>h'. client_enroll (ex_enroll_io True) ex_loaded = (h', None) \<and> CertPrincipals (hsCache h') ''bob'' = [] \<and>
     hsDiskCache h' = Some (hsCache h')"
proof -
  obtain h' e where r: "client_enroll (ex_enroll_io True) ex_loaded = (h', e)" by (rule prod.exhaust)
  then have "e = None" by (auto simp: client_enroll_def ex_enroll_io_def Let_def)
  with enroll_forgets_previous [OF r, of "''bob''"] r show ?thesis by blast
qed

theorem interrupted_enroll_keeps_old_trust_witness:
  "\<exists>h' cfg. client_enroll (ex_enroll_io False) ex_loaded = (h', Some ErrSaveCache) \<and> hsDiskConfig h' = Some cfg \<and>
    DaemonID cfg = ''d'' \<and> SessionToken cfg = ''k'' \<and> hsDiskCache h' = Some ex_cache"
  using interrupted_enroll_keeps_old_trust
    [of "ex_enroll_io False" "\<lparr>erTargetID = ''t'', erID = ''d'', erToken = ''k'', erConfig = None\<rparr>" ex_loaded]
  by (simp add: ex_enroll_io_def ex_loaded_def)

theorem blank_token_reports_enrolled_witness:
  "enroll_command 0 ex_url ex_load ex_disk '''' True (Some '''') '''' None True ex_client_io = Inr (ex_loaded, False) \<and>
   DaemonID (hsConfig ex_loaded) = ''''"
proof -
  have "trim_space '''' = ''''" by (simp add: trim_space_def)
  from blank_token_reports_enrolled [OF ex_loadState this, of ex_client_io] show ?thesis
    by (simp add: ex_client_io_def ex_loaded_def ex_stored_def)
qed

definition ex_run_io :: run_io where
  "ex_run_io = \<lparr>rnParseKey = ex_parse, rnLib = ex_lib ex_hcert, rnCertOk = (\<lambda>c k. True), rnSigner = Some (''K'', ''pub''),
     rnWriteKey = True, rnRemoveCert = True, rnSSHSigner = True, rnListenOk = True, rnAddrOk = True,
     rnFirst = ex_sync StatusRejected, rnRounds = [], rnWatched = (\<lambda>d. d), rnCleanupOk = True\<rparr>"

definition ex_load_enrolled :: load_io where
  "ex_load_enrolled = ex_load\<lparr>ldConfig := Some (ex_stored\<lparr>DaemonID := ''d''\<rparr>)\<rparr>"

definition ex_host_rejected :: host_state where
  "ex_host_rejected = \<lparr>hsCache = NewCache, hsConfig = ex_stored\<lparr>DaemonID := ''d''\<rparr>, hsDiskCache = Some NewCache,
     hsDiskConfig = Some ex_stored, hsHost = ex_disk\<rparr>"

lemma ex_run_rejected:
  "run_command 0 ex_url ex_load_enrolled ex_disk ''token'' '''' None True ex_client_io ex_run_io =
     ((Some ex_host_rejected, False, False), Ended (Some ErrRejected))"
  by (simp add: run_command_def IsRoot_def loadState_def Verify_def ex_load_enrolled_def ex_load_def ex_stored_def checkAPIURL_def ex_url_def
      DefaultAPIURL_def Let_def enrollHost_def newDaemonClient_def ex_client_io_def serve_host_def loadHostKey_def
      writeHostPubKey_def ex_disk_def ex_run_io_def boot_server_def NewServer_def client_Run_def do_sync_def sync_with_def
      syncDaemon_def ex_sync_def ex_answer_def reject_daemon_def save_cache_def host_of_def client_of_def
      Clear_def ex_host_rejected_def)

theorem enrolled_host_ignores_token_witness:
  "\<exists>h' asked deleted e. run_command 0 ex_url ex_load_enrolled ex_disk ''token'' '''' None True ex_client_io ex_run_io =
     ((h', asked, deleted), e) \<and> \<not> asked"
  using enrolled_host_ignores_token [OF ex_run_rejected, of "ex_stored\<lparr>DaemonID := ''d''\<rparr>"] ex_run_rejected
  by (auto simp: ex_load_enrolled_def)

definition ex_load_rejected :: load_io where
  "ex_load_rejected = ex_load_enrolled\<lparr>ldCache := Some NewCache, ldConfig := Some ex_stored\<rparr>"

lemma ex_load_after_rejection:
  "\<exists>h. loadState ex_url ex_load_rejected ex_disk = Inr h"
  by (simp add: loadState_def Verify_def ex_load_rejected_def ex_load_enrolled_def ex_load_def ex_stored_def
      checkAPIURL_def ex_url_def DefaultAPIURL_def Let_def)

theorem rejected_host_stays_out_witness:
  "run_command 0 ex_url ex_load_enrolled ex_disk ''token'' '''' None True ex_client_io ex_run_io =
     ((Some ex_host_rejected, False, False), Ended (Some ErrRejected)) \<and>
   (\<exists>h. run_command 0 ex_url ex_load_rejected ex_disk '''' '''' None True ex_client_io ex_run_io =
     ((Some h, False, False), Ended (Some ErrNotEnrolled)))"
proof -
  have writes: "\<forall>s \<in> insert (rnFirst ex_run_io) (\<Union> (round_syncs ` set (rnRounds ex_run_io))).
      answered_rejected s \<longrightarrow> sioCacheOk s \<and> sioConfigOk s"
    by (simp add: ex_run_io_def ex_sync_def)
  have files: "ldCache ex_load_rejected = hsDiskCache ex_host_rejected" "ldConfig ex_load_rejected = hsDiskConfig ex_host_rejected"
    by (simp_all add: ex_load_rejected_def ex_host_rejected_def)
  from ex_load_after_rejection obtain h where h: "loadState ex_url ex_load_rejected ex_disk = Inr h" by blast
  from rejected_host_stays_out [OF ex_run_rejected writes files, of ex_url ex_disk "''''" None True ex_client_io ex_run_io]
  show ?thesis using ex_run_rejected by (simp add: h)
qed

end
