(* ===== verification/Relay.thy ===== *)
theory Relay
  imports Go_Net "HOL-Library.Sublist"
begin

text \<open>
  The relay of web sessions, \<^verbatim>\<open>internal/client/relay.go\<close>: a stream of the control protocol as a
  \<^verbatim>\<open>net.Conn\<close>. Frames that arrive are read through a buffer of any size; frames that leave are
  serialised by a mutex, and the last one says that the connection is closed.
\<close>

section \<open>The client's address\<close>

record tcp_addr =
  tcpIP :: netip_addr
  tcpPort :: nat

definition clientAddr :: "string \<Rightarrow> tcp_addr" where
  "clientAddr addr =
     (case parse_addr_port addr of Some (ip, port) \<Rightarrow> \<lparr>tcpIP = ip, tcpPort = port\<rparr>
      | None \<Rightarrow>
          (case parse_addr addr of Some ip \<Rightarrow> \<lparr>tcpIP = ip, tcpPort = 0\<rparr>
           | None \<Rightarrow> \<lparr>tcpIP = Addr4 0, tcpPort = 0\<rparr>))"

section \<open>Reading\<close>

text \<open>What \<^verbatim>\<open>Receive\<close> gives: data, the end, a message of another kind, or an error.\<close>

datatype relay_in = InData bytes | InClosed | InOther | InError

datatype read_result = ReadBytes bytes | ReadEnd | ReadFailed | ReadWaits

text \<open>The loop of \<^verbatim>\<open>Read\<close> until something is pending; \<^const>\<open>ReadWaits\<close> when nothing has arrived.\<close>

fun relay_fill :: "bytes \<Rightarrow> relay_in list \<Rightarrow> read_result option \<times> bytes \<times> relay_in list" where
  "relay_fill (b # pending) ins = (None, b # pending, ins)"
| "relay_fill [] [] = (Some ReadWaits, [], [])"
| "relay_fill [] (InData d # ins) = relay_fill d ins"
| "relay_fill [] (InClosed # ins) = (Some ReadEnd, [], ins)"
| "relay_fill [] (InError # ins) = (Some ReadFailed, [], ins)"
| "relay_fill [] (InOther # ins) = relay_fill [] ins"

record relay_reader =
  rrPending :: bytes
  rrIncoming :: "relay_in list"

definition relay_Read :: "nat \<Rightarrow> relay_reader \<Rightarrow> read_result \<times> relay_reader" where
  "relay_Read n c =
     (case relay_fill (rrPending c) (rrIncoming c) of
        (Some res, pending, ins) \<Rightarrow> (res, \<lparr>rrPending = pending, rrIncoming = ins\<rparr>)
      | (None, pending, ins) \<Rightarrow>
          (ReadBytes (take n pending), \<lparr>rrPending = drop n pending, rrIncoming = ins\<rparr>))"

text \<open>A sequence of reads, up to the first that does not give bytes.\<close>

fun relay_reads :: "nat list \<Rightarrow> relay_reader \<Rightarrow> bytes \<times> read_result option \<times> relay_reader" where
  "relay_reads [] c = ([], None, c)"
| "relay_reads (n # ns) c =
     (case relay_Read n c of
        (ReadBytes d, c') \<Rightarrow> (case relay_reads ns c' of (ds, res, c'') \<Rightarrow> (d @ ds, res, c''))
      | (res, c') \<Rightarrow> ([], Some res, c'))"

text \<open>The data of the frames before the end or an error.\<close>

fun relay_data :: "relay_in list \<Rightarrow> bytes" where
  "relay_data [] = []"
| "relay_data (InData d # ins) = d @ relay_data ins"
| "relay_data (InOther # ins) = relay_data ins"
| "relay_data (InClosed # ins) = []"
| "relay_data (InError # ins) = []"

definition unread :: "relay_reader \<Rightarrow> bytes" where
  "unread c = rrPending c @ relay_data (rrIncoming c)"

lemma relay_fill_unread:
  "relay_fill p ins = (res, p', ins') \<Longrightarrow>
     (case res of None \<Rightarrow> p' \<noteq> [] \<and> p' @ relay_data ins' = p @ relay_data ins
      | Some ReadEnd \<Rightarrow> p @ relay_data ins = [] \<and> InClosed \<in> set ins
      | Some ReadFailed \<Rightarrow> p @ relay_data ins = [] \<and> InError \<in> set ins
      | Some ReadWaits \<Rightarrow> p @ relay_data ins = [] \<and> p' = [] \<and> ins' = []
      | Some (ReadBytes b) \<Rightarrow> False)"
  by (induction p ins rule: relay_fill.induct) (auto split: option.splits read_result.splits)

lemma relay_Read_unread:
  assumes "relay_Read n c = (res, c')"
  shows "(case res of ReadBytes d \<Rightarrow> unread c = d @ unread c' \<and> (0 < n \<longrightarrow> d \<noteq> []) \<and> length d \<le> n
      | ReadEnd \<Rightarrow> unread c = [] \<and> InClosed \<in> set (rrIncoming c)
      | ReadFailed \<Rightarrow> unread c = [] \<and> InError \<in> set (rrIncoming c)
      | ReadWaits \<Rightarrow> unread c = [])"
proof -
  obtain r p ins where f: "relay_fill (rrPending c) (rrIncoming c) = (r, p, ins)" by (rule prod_cases3)
  note u = relay_fill_unread [OF f]
  show ?thesis
  proof (cases r)
    case None
    then have "p @ relay_data ins = unread c" "p \<noteq> []" using u by (simp_all add: unread_def)
    moreover have "res = ReadBytes (take n p)" "c' = \<lparr>rrPending = drop n p, rrIncoming = ins\<rparr>"
      using assms f None by (simp_all add: relay_Read_def)
    ultimately show ?thesis by (simp add: unread_def flip: append_assoc)
  next
    case (Some x)
    then have "res = x" using assms f by (simp add: relay_Read_def)
    with u Some show ?thesis by (cases x) (simp_all add: unread_def)
  qed
qed

lemma relay_fill_incoming: "relay_fill p ins = (res, p', ins') \<Longrightarrow> set ins' \<subseteq> set ins"
  by (induction p ins rule: relay_fill.induct) auto

lemma relay_Read_incoming: "relay_Read n c = (res, c') \<Longrightarrow> set (rrIncoming c') \<subseteq> set (rrIncoming c)"
  by (auto simp: relay_Read_def split: prod.splits option.splits dest!: relay_fill_incoming)

text \<open>C31.
  The relay is a byte stream. However the frames are cut and whatever buffers the reads have, the bytes
  read are the data of the frames in order without loss, and the end of the stream is reported only
  after all data before the closing frame was read.
\<close>
theorem relay_reads_in_order:
  assumes "relay_reads ns c = (ds, res, c')"
  shows "prefix ds (unread c) \<and>
    (res = None \<longrightarrow> unread c = ds @ unread c') \<and>
    (res = Some ReadEnd \<longrightarrow> ds = unread c \<and> InClosed \<in> set (rrIncoming c)) \<and>
    (res = Some ReadFailed \<longrightarrow> ds = unread c \<and> InError \<in> set (rrIncoming c))"
  using assms
proof (induction ns arbitrary: c ds)
  case (Cons n ns)
  obtain r c1 where r: "relay_Read n c = (r, c1)" by (rule prod.exhaust)
  note u = relay_Read_unread [OF r]
  show ?case
  proof (cases r)
    case (ReadBytes d)
    obtain ds1 res1 c2 where rs: "relay_reads ns c1 = (ds1, res1, c2)" by (rule prod_cases3)
    with Cons.prems r ReadBytes have "ds = d @ ds1" "res = res1" "c' = c2" by simp_all
    with Cons.IH [of c1 ds1] rs u ReadBytes relay_Read_incoming [OF r] show ?thesis by auto
  qed (use Cons.prems r u in \<open>auto\<close>)
qed simp

section \<open>Writing\<close>

datatype relay_frame = FrameReady string | FrameData bytes | FrameClosed

text \<open>Who holds \<^verbatim>\<open>sendMu\<close>.\<close>

datatype send_holder = Nobody | Writer bytes | Closer

record relay_sender =
  rsHolder :: send_holder
  rsClosed :: bool
  rsSent :: "relay_frame list"
  rsCanceled :: bool
  rsDeadline :: "gotime option"

definition new_relay :: "string \<Rightarrow> relay_sender" where
  "new_relay rid = \<lparr>rsHolder = Nobody, rsClosed = False, rsSent = [FrameReady rid], rsCanceled = False, rsDeadline = None\<rparr>"

text \<open>
  \<^verbatim>\<open>runRelay\<close>: the stream is opened and \<^verbatim>\<open>Ready\<close> sent as its first message, then the connection is
  served; \<^const>\<open>None\<close> when one of the two fails.
\<close>

definition runRelay :: "bool \<Rightarrow> bool \<Rightarrow> string \<Rightarrow> string \<Rightarrow> (relay_sender \<times> tcp_addr) option" where
  "runRelay open_ok ready_ok rid client =
     (if open_ok \<and> ready_ok then Some (new_relay rid, clientAddr client) else None)"

definition SetDeadline :: "gotime option \<Rightarrow> relay_sender \<Rightarrow> relay_sender" where
  "SetDeadline t r = r\<lparr>rsDeadline := t\<rparr>"

text \<open>\<^verbatim>\<open>Write\<close> gets the lock and sends; a send reports an error or not. \<^const>\<open>None\<close> while the lock is taken.\<close>

definition write_begin :: "bytes \<Rightarrow> relay_sender \<Rightarrow> relay_sender option" where
  "write_begin p r =
     (if rsHolder r \<noteq> Nobody then None else if rsClosed r then Some r else Some (r\<lparr>rsHolder := Writer p\<rparr>))"

definition write_end :: "bool \<Rightarrow> relay_sender \<Rightarrow> relay_sender option" where
  "write_end ok r =
     (case rsHolder r of
        Writer p \<Rightarrow> Some (r\<lparr>rsHolder := Nobody, rsSent := rsSent r @ (if ok then [FrameData p] else [])\<rparr>)
      | _ \<Rightarrow> None)"

text \<open>\<^verbatim>\<open>Close\<close> tries the lock; without it, or once closed, it only cancels.\<close>

definition cancel_relay :: "relay_sender \<Rightarrow> relay_sender" where
  "cancel_relay r = SetDeadline None (r\<lparr>rsCanceled := True\<rparr>)"

definition close_begin :: "relay_sender \<Rightarrow> relay_sender" where
  "close_begin r =
     (if rsHolder r \<noteq> Nobody \<or> rsClosed r then cancel_relay r
      else r\<lparr>rsClosed := True, rsHolder := Closer\<rparr>)"

definition close_end :: "bool \<Rightarrow> relay_sender \<Rightarrow> relay_sender option" where
  "close_end ok r =
     (case rsHolder r of
        Closer \<Rightarrow> Some (cancel_relay (r\<lparr>rsHolder := Nobody, rsSent := rsSent r @ (if ok then [FrameClosed] else [])\<rparr>))
      | _ \<Rightarrow> None)"

inductive relay_step :: "relay_sender \<Rightarrow> relay_sender \<Rightarrow> bool" where
  write_begins: "write_begin p r = Some r' \<Longrightarrow> relay_step r r'"
| write_ends: "write_end ok r = Some r' \<Longrightarrow> relay_step r r'"
| close_begins: "relay_step r (close_begin r)"
| close_ends: "close_end ok r = Some r' \<Longrightarrow> relay_step r r'"
| deadline_set: "relay_step r (SetDeadline t r)"
| deadline_passes: "rsDeadline r = Some t \<Longrightarrow> relay_step r (r\<lparr>rsCanceled := True\<rparr>)"

definition relay_inv :: "string \<Rightarrow> relay_sender \<Rightarrow> bool" where
  "relay_inv rid r \<longleftrightarrow>
     (\<exists>ds fin. rsSent r = FrameReady rid # map FrameData ds @ fin \<and>
        (fin = [] \<or> fin = [FrameClosed] \<and> rsClosed r \<and> rsHolder r = Nobody)) \<and>
     (rsClosed r \<longrightarrow> (\<forall>p. rsHolder r \<noteq> Writer p)) \<and> (rsHolder r = Closer \<longrightarrow> rsClosed r)"

inductive_cases relay_stepE: "relay_step r r'"

lemma relay_inv_new: "relay_inv rid (new_relay rid)"
  by (simp add: relay_inv_def new_relay_def)

lemma relay_inv_same:
  assumes "relay_inv rid r" "rsSent r' = rsSent r" "rsClosed r' = rsClosed r" "rsHolder r' = rsHolder r"
  shows "relay_inv rid r'"
  using assms by (simp add: relay_inv_def)

lemma relay_inv_cancel: "relay_inv rid r \<Longrightarrow> relay_inv rid (cancel_relay r)"
  by (erule relay_inv_same) (simp_all add: cancel_relay_def SetDeadline_def)

lemma relay_inv_write_begin:
  assumes "relay_inv rid r" "write_begin p r = Some r'"
  shows "relay_inv rid r'"
  using assms by (auto simp: write_begin_def relay_inv_def split: if_splits)

lemma relay_inv_write_end:
  assumes "relay_inv rid r" "write_end ok r = Some r'"
  shows "relay_inv rid r'"
proof -
  from assms(2) obtain p where p: "rsHolder r = Writer p"
    "r' = r\<lparr>rsHolder := Nobody, rsSent := rsSent r @ (if ok then [FrameData p] else [])\<rparr>"
    by (auto simp: write_end_def split: send_holder.splits)
  with assms(1) obtain ds where ds: "rsSent r = FrameReady rid # map FrameData ds" "\<not> rsClosed r"
    by (auto simp: relay_inv_def)
  then have "rsSent r' = FrameReady rid # map FrameData (ds @ (if ok then [p] else [])) @ []" using p by simp
  moreover have "\<not> rsClosed r'" "rsHolder r' = Nobody" using p ds by simp_all
  ultimately show ?thesis
    unfolding relay_inv_def by (intro conjI exI [of _ "ds @ (if ok then [p] else [])"] exI [of _ "[]"]) simp_all
qed

lemma relay_inv_close_begin: "relay_inv rid r \<Longrightarrow> relay_inv rid (close_begin r)"
  by (auto simp: close_begin_def intro: relay_inv_cancel) (auto simp: relay_inv_def)

lemma relay_inv_close_end:
  assumes "relay_inv rid r" "close_end ok r = Some r'"
  shows "relay_inv rid r'"
proof -
  from assms(2) have c: "rsHolder r = Closer"
    "r' = cancel_relay (r\<lparr>rsHolder := Nobody, rsSent := rsSent r @ (if ok then [FrameClosed] else [])\<rparr>)"
    by (auto simp: close_end_def split: send_holder.splits)
  with assms(1) obtain ds where "rsSent r = FrameReady rid # map FrameData ds" "rsClosed r"
    by (auto simp: relay_inv_def)
  then have "relay_inv rid (r\<lparr>rsHolder := Nobody, rsSent := rsSent r @ (if ok then [FrameClosed] else [])\<rparr>)"
    by (auto simp: relay_inv_def)
  then show ?thesis unfolding c(2) by (rule relay_inv_cancel)
qed

lemma relay_inv_step: "relay_inv rid r \<Longrightarrow> relay_step r r' \<Longrightarrow> relay_inv rid r'"
  by (erule relay_stepE)
    (auto intro: relay_inv_write_begin relay_inv_write_end relay_inv_close_begin relay_inv_close_end
      simp: SetDeadline_def elim: relay_inv_same)

interpretation relay: transition_system "\<lambda>r. r = new_relay rid" relay_step "relay_inv rid" for rid
  by unfold_locales (simp_all add: relay_inv_new relay_inv_step)

text \<open>C32.
  The frames of a relay are in order: over every interleaving of writes, closes and deadlines the stream
  has \<^verbatim>\<open>Ready\<close> first, then the data of the writes that did not fail, and \<^verbatim>\<open>Closed\<close> at most once and
  as the last frame; after it no write sends anything.
\<close>
theorem closed_is_last_frame:
  assumes "relay_step\<^sup>*\<^sup>* (new_relay rid) r"
  shows "(\<exists>ds fin. rsSent r = FrameReady rid # map FrameData ds @ fin \<and> (fin = [] \<or> fin = [FrameClosed])) \<and>
    (FrameClosed \<in> set (rsSent r) \<longrightarrow> write_begin p r = Some r \<and> write_end ok r = None \<and> close_end ok r = None)"
  using relay.inv_reachable [OF refl assms] by (auto simp: relay_inv_def write_begin_def write_end_def close_end_def)

text \<open>An address that does not parse is the unspecified one, which no \<^verbatim>\<open>source-address\<close> option matches.\<close>

lemma clientAddr_unspecified:
  "parse_addr_port s = None \<Longrightarrow> parse_addr s = None \<Longrightarrow> is_unspecified (tcpIP (clientAddr s))"
  by (simp add: clientAddr_def is_unspecified_def)

theorem relay_reads_in_order_witness:
  "relay_reads [2, 5, 1] \<lparr>rrPending = [], rrIncoming = [InOther, InData ''abc'', InClosed]\<rparr> =
     (''abc'', Some ReadEnd, \<lparr>rrPending = [], rrIncoming = []\<rparr>) \<and>
   ''abc'' = unread \<lparr>rrPending = [], rrIncoming = [InOther, InData ''abc'', InClosed]\<rparr>"
proof -
  have r: "relay_reads [2, 5, 1] \<lparr>rrPending = [], rrIncoming = [InOther, InData ''abc'', InClosed]\<rparr> =
     (''abc'', Some ReadEnd, \<lparr>rrPending = [], rrIncoming = []\<rparr>)"
    by (simp add: relay_Read_def numeral_eq_Suc)
  with relay_reads_in_order [OF r] show ?thesis by simp
qed

theorem closed_is_last_frame_witness:
  "\<exists>r. relay_step\<^sup>*\<^sup>* (new_relay ''r'') r \<and> FrameClosed \<in> set (rsSent r) \<and> write_begin ''x'' r = Some r"
proof -
  define r1 where "r1 = close_begin (new_relay ''r'')"
  define r2 where "r2 = cancel_relay (r1\<lparr>rsHolder := Nobody, rsSent := rsSent r1 @ [FrameClosed]\<rparr>)"
  have "close_end True r1 = Some r2"
    by (simp add: close_end_def r1_def r2_def close_begin_def new_relay_def)
  from relay_step.close_ends [OF this] have run: "relay_step\<^sup>*\<^sup>* (new_relay ''r'') r2"
    using relay_step.close_begins [of "new_relay ''r''"] unfolding r1_def
    by (rule converse_rtranclp_into_rtranclp [OF _ r_into_rtranclp, rotated])
  moreover have "FrameClosed \<in> set (rsSent r2)"
    by (simp add: r2_def cancel_relay_def SetDeadline_def)
  ultimately show ?thesis using closed_is_last_frame [OF run, of "''x''" True] by blast
qed

end
