(* ===== verification/Stream_Copy.thy ===== *)
theory Stream_Copy
  imports Nokkud_Prelude "HOL-Library.Sublist"
begin

text \<open>
  One copying goroutine, \<^verbatim>\<open>io.Copy\<close> or the read loop of a terminal's input: it reads what the other end
  produced in pieces, hands each piece on, and ends at the end of the stream, when a write fails
  or when its source was closed under it. Sessions, forwarded ports and agent connections are
  built of such goroutines.
\<close>

section \<open>The goroutine\<close>

text \<open>
  What the writers produced, what of it waits unread, whether someone can still write, whether our end was closed;
  the piece read but not yet handed on, all that was read and all that was handed on.
\<close>

record copier =
  cpProduced :: bytes
  cpPipe :: bytes
  cpWriters :: bool
  cpShut :: bool
  cpHeld :: "bytes option"
  cpTaken :: bytes
  cpDelivered :: bytes
  cpFailed :: bool
  cpDone :: bool

definition new_copier :: copier where
  "new_copier = \<lparr>cpProduced = [], cpPipe = [], cpWriters = True, cpShut = False, cpHeld = None, cpTaken = [],
     cpDelivered = [], cpFailed = False, cpDone = False\<rparr>"

definition copy_read :: "nat \<Rightarrow> copier \<Rightarrow> (bytes \<times> copier) option" where
  "copy_read n c =
     (if cpDone c \<or> cpHeld c \<noteq> None \<or> cpShut c \<or> cpPipe c = [] \<or> n = 0 then None
      else Some (take n (cpPipe c),
        c\<lparr>cpPipe := drop n (cpPipe c), cpTaken := cpTaken c @ take n (cpPipe c), cpHeld := Some (take n (cpPipe c))\<rparr>))"

text \<open>A write takes the piece in full, or a part of it with an error, which ends the goroutine.\<close>

definition copy_write :: "nat option \<Rightarrow> copier \<Rightarrow> copier option" where
  "copy_write res c =
     (case cpHeld c of None \<Rightarrow> None
      | Some d \<Rightarrow>
          Some (case res of
             None \<Rightarrow> c\<lparr>cpHeld := None, cpDelivered := cpDelivered c @ d\<rparr>
           | Some k \<Rightarrow>
               c\<lparr>cpHeld := None, cpDelivered := cpDelivered c @ take k d, cpFailed := True, cpDone := True\<rparr>))"

text \<open>The end of the stream, or the error of a read from a source that was closed.\<close>

definition copy_end :: "copier \<Rightarrow> copier option" where
  "copy_end c =
     (if \<not> cpDone c \<and> cpHeld c = None \<and> (cpShut c \<or> cpPipe c = [] \<and> \<not> cpWriters c)
      then Some (c\<lparr>cpDone := True\<rparr>) else None)"

datatype copy_label = Quiet | Took bytes | Shuts

inductive copy_step :: "copier \<Rightarrow> copy_label \<Rightarrow> copier \<Rightarrow> bool" where
  produces: "cpWriters c \<Longrightarrow> copy_step c Quiet (c\<lparr>cpProduced := cpProduced c @ d, cpPipe := cpPipe c @ d\<rparr>)"
| writers_gone: "copy_step c Quiet (c\<lparr>cpWriters := False\<rparr>)"
| reads: "copy_read n c = Some (d, c') \<Longrightarrow> copy_step c (Took d) c'"
| writes: "copy_write res c = Some c' \<Longrightarrow> copy_step c Quiet c'"
| ends: "copy_end c = Some c' \<Longrightarrow> copy_step c Quiet c'"
| shuts: "copy_step c Shuts (c\<lparr>cpShut := True\<rparr>)"

inductive_cases copy_stepE: "copy_step c l c'"

section \<open>What it keeps\<close>

definition copy_inv :: "copier \<Rightarrow> bool" where
  "copy_inv c \<longleftrightarrow>
     cpProduced c = cpTaken c @ cpPipe c \<and>
     prefix (cpDelivered c) (cpTaken c) \<and>
     (cpFailed c \<longrightarrow> cpDone c) \<and> (cpDone c \<longrightarrow> cpHeld c = None) \<and>
     (\<not> cpFailed c \<longrightarrow> cpTaken c = cpDelivered c @ (case cpHeld c of None \<Rightarrow> [] | Some d \<Rightarrow> d)) \<and>
     (cpDone c \<and> \<not> cpFailed c \<and> \<not> cpShut c \<longrightarrow> cpPipe c = [] \<and> \<not> cpWriters c)"

lemma copy_inv_new: "copy_inv new_copier"
  by (simp add: copy_inv_def new_copier_def)

lemma copy_inv_step:
  assumes "copy_step c l c'" "copy_inv c"
  shows "copy_inv c'"
  using assms(1)
proof cases
  case (reads n d)
  then show ?thesis
    using assms(2) by (auto simp: copy_inv_def copy_read_def prefix_def split: if_splits option.splits)
next
  case (writes res)
  then obtain d where d: "cpHeld c = Some d" by (auto simp: copy_write_def split: option.splits)
  with assms(2) have t: "cpTaken c = cpDelivered c @ d" "\<not> cpDone c" "\<not> cpFailed c" by (auto simp: copy_inv_def)
  have "prefix (cpDelivered c @ take k d) (cpDelivered c @ d)" for k by (simp add: take_is_prefix)
  with writes d t assms(2) show ?thesis by (auto simp: copy_inv_def copy_write_def split: option.splits)
next
  case ends
  then show ?thesis
    using assms(2) by (auto simp: copy_inv_def copy_end_def split: if_splits)
qed (use assms(2) in \<open>auto simp: copy_inv_def\<close>)

interpretation copy: transition_system "\<lambda>c. c = new_copier" "\<lambda>c c'. \<exists>l. copy_step c l c'" copy_inv
  by unfold_locales (auto simp: copy_inv_new intro: copy_inv_step)

lemma copy_inv_delivered:
  assumes "copy_inv c"
  shows "prefix (cpDelivered c) (cpTaken c)" "prefix (cpTaken c) (cpProduced c)"
  using assms by (auto simp: copy_inv_def prefix_def)

lemma copy_inv_complete:
  assumes "copy_inv c" "cpDone c" "\<not> cpFailed c" "\<not> cpShut c"
  shows "cpDelivered c = cpProduced c" "\<not> cpWriters c"
  using assms by (auto simp: copy_inv_def)

text \<open>What a step does to the bytes read: a label tells it.\<close>

definition took :: "copy_label \<Rightarrow> bytes" where
  "took l = (case l of Took d \<Rightarrow> d | _ \<Rightarrow> [])"

lemma copy_step_taken: "copy_step c l c' \<Longrightarrow> cpTaken c' = cpTaken c @ took l"
  by (auto simp: took_def copy_read_def copy_write_def copy_end_def elim!: copy_stepE split: option.splits if_splits)

lemma copy_step_stays:
  assumes "copy_step c l c'"
  shows "cpDone c \<Longrightarrow> cpDone c'" "cpShut c' \<longleftrightarrow> cpShut c \<or> l = Shuts" "\<not> cpWriters c \<Longrightarrow> \<not> cpWriters c'"
  using assms
  by (auto simp: copy_read_def copy_write_def copy_end_def elim!: copy_stepE split: option.splits if_splits)

text \<open>
  A goroutine whose source was closed is never stuck: with one write, whatever it answers, it ends.
\<close>

lemma shut_copier_ends:
  assumes "cpShut c" "\<not> cpDone c"
  shows "\<exists>c'. (\<lambda>c c'. \<exists>l. copy_step c l c')\<^sup>*\<^sup>* c c' \<and> cpDone c'"
proof (cases "cpHeld c")
  case None
  with assms have "copy_end c = Some (c\<lparr>cpDone := True\<rparr>)" by (simp add: copy_end_def)
  then show ?thesis by (intro exI [of _ "c\<lparr>cpDone := True\<rparr>"]) (auto intro: copy_step.ends)
next
  case (Some d)
  define c' where "c' = c\<lparr>cpHeld := None, cpDelivered := cpDelivered c @ take 0 d, cpFailed := True, cpDone := True\<rparr>"
  from Some have "copy_write (Some 0) c = Some c'" by (simp add: copy_write_def c'_def)
  then have "\<exists>l. copy_step c l c'" by (blast intro: copy_step.writes)
  then show ?thesis by (intro exI [of _ c']) (auto simp: c'_def)
qed

end
