(* ===== verification/Session_Streams.thy ===== *)
theory Session_Streams
  imports Stream_Copy Recorder
begin

text \<open>
  The streams of a session, \<^verbatim>\<open>runPTY\<close>, \<^verbatim>\<open>runPlain\<close>, \<^verbatim>\<open>relay\<close> and \<^verbatim>\<open>recOut\<close> of
  \<^verbatim>\<open>internal/sshd/session.go\<close> and the terminal of \<^verbatim>\<open>pty.go\<close>: goroutines copy the output of the command to the
  client and the client's input to the command, record both, and the exit status is reported
  when the output has been copied. A step is one atomic part of one goroutine or of the command.
\<close>

unbundle bit_operations_syntax

section \<open>The terminal\<close>

text \<open>The result of \<^verbatim>\<open>TCGETS\<close>: the local flags, or an error.\<close>

definition ECHO :: "32 word" where "ECHO = 8"

definition echoEnabled :: "32 word option \<Rightarrow> bool" where
  "echoEnabled termios = (case termios of None \<Rightarrow> False | Some lflag \<Rightarrow> lflag AND ECHO \<noteq> 0)"

text \<open>What \<^verbatim>\<open>TCGETS\<close> gives for a terminal with these flags, when it succeeds.\<close>

definition tcgets :: "32 word \<Rightarrow> bool \<Rightarrow> 32 word option" where
  "tcgets flags ok = (if ok then Some flags else None)"

lemma echoEnabled_bit: "echoEnabled (tcgets flags ok) \<longleftrightarrow> ok \<and> bit flags 3"
  using and_exp_eq_0_iff_not_bit [of flags 3] by (simp add: echoEnabled_def tcgets_def ECHO_def)

text \<open>The local flags of a new terminal, as the kernel sets them up: it echoes.\<close>

definition new_tty_flags :: "32 word" where "new_tty_flags = 0x8A3B"

text \<open>
  \<^verbatim>\<open>openPTY\<close>: the master, its number and unlocking, and the slave; a failure after the first closes the master.
  The result is the name of the slave and the files left open.
\<close>

datatype pty_file = Ptmx | Tty

definition openPTY :: "bool \<Rightarrow> nat option \<Rightarrow> bool \<Rightarrow> (string \<Rightarrow> bool) \<Rightarrow> string option \<times> pty_file set" where
  "openPTY master_ok number unlock_ok slave_ok =
     (if \<not> master_ok then (None, {})
      else case number of None \<Rightarrow> (None, {Ptmx} - {Ptmx})
      | Some n \<Rightarrow>
          let name = ''/dev/pts/'' @ itoa (int n) in
          if unlock_ok \<and> slave_ok name then (Some name, {Ptmx, Tty}) else (None, {Ptmx} - {Ptmx}))"

text \<open>\<^verbatim>\<open>startPiped\<close>: the two pipes and the start, which closes both when it fails. The result is whether it started, and the pipes left open.\<close>

datatype pipe_end = StdinPipe | StdoutPipe

definition startPiped :: "bool \<Rightarrow> bool \<Rightarrow> bool \<Rightarrow> bool \<times> pipe_end set" where
  "startPiped stdin_ok stdout_ok start_ok =
     (if \<not> stdin_ok then (False, {})
      else if \<not> stdout_ok then (False, {StdinPipe} - {StdinPipe})
      else if start_ok then (True, {StdinPipe, StdoutPipe})
      else (False, {StdinPipe, StdoutPipe} - {StdinPipe, StdoutPipe}))"

text \<open>Neither leaves a file open when it fails.\<close>

lemma failed_open_leaves_nothing:
  "openPTY master_ok number unlock_ok slave_ok = (None, fs) \<Longrightarrow> fs = {}"
  "startPiped stdin_ok stdout_ok start_ok = (False, ps) \<Longrightarrow> ps = {}"
  by (auto simp: openPTY_def startPiped_def Let_def split: if_splits option.splits)

section \<open>The goroutines\<close>

datatype outstream = StdOut | StdErr

datatype origin = FromOut outstream | FromInput | FromNotice

datatype main_pc = Draining | Waiting | Reported

text \<open>
  Whether the session has a terminal and the flags it has now, the copying goroutines, the calls made on the
  recorder with their origin, what the client typed, each piece with the flags of the terminal at that moment
  and whether they could be read, whether the session's context was
  canceled, whether the process has ended, and where the function itself is.
\<close>

record stream_sys =
  syPty :: bool
  syFlags :: "32 word"
  syOut :: "outstream \<Rightarrow> copier"
  syIn :: copier
  syCalls :: "(origin \<times> bytes) list"
  syTyped :: "(bytes \<times> 32 word \<times> bool) list"
  syCanceled :: bool
  syExited :: bool
  syMain :: main_pc

text \<open>
  The start: with a terminal there is one output stream, and the notice of a missing home directory is
  written through the recorder; without one the notice goes to the client only.
\<close>

definition crlf :: string where "crlf = [CHR 0x0D, CHR 0x0A]"

definition run_streams :: "bool \<Rightarrow> string \<Rightarrow> stream_sys" where
  "run_streams pty notice = \<lparr>syPty = pty, syFlags = new_tty_flags,
     syOut = (\<lambda>i. if pty \<and> i = StdErr then new_copier\<lparr>cpWriters := False, cpDone := True\<rparr> else new_copier),
     syIn = new_copier, syCalls = (if pty \<and> notice \<noteq> '''' then [(FromNotice, notice @ crlf)] else []), syTyped = [],
     syCanceled = False, syExited = False, syMain = Draining\<rparr>"

text \<open>\<^verbatim>\<open>recOut.Write\<close> records before it writes.\<close>

definition out_calls :: "outstream \<Rightarrow> copy_label \<Rightarrow> (origin \<times> bytes) list" where
  "out_calls i l = (case l of Took d \<Rightarrow> [(FromOut i, d)] | _ \<Rightarrow> [])"

text \<open>Input is recorded in the loop of \<^verbatim>\<open>runPTY\<close> only, and only when the terminal echoes.\<close>

definition in_calls :: "bool \<Rightarrow> bool \<Rightarrow> copy_label \<Rightarrow> (origin \<times> bytes) list" where
  "in_calls pty echo l = (case l of Took d \<Rightarrow> if pty \<and> echo then [(FromInput, d)] else [] | _ \<Rightarrow> [])"

definition typed :: "32 word \<Rightarrow> bool \<Rightarrow> copy_label \<Rightarrow> (bytes \<times> 32 word \<times> bool) list" where
  "typed flags ok l = (case l of Took d \<Rightarrow> [(d, flags, ok)] | _ \<Rightarrow> [])"

text \<open>
  Who closes an output under its goroutine: for the terminal or the standard output the function that runs
  when the context is done; for the standard error \<^verbatim>\<open>Wait\<close>, a second after the process has ended.
\<close>

definition may_shut :: "stream_sys \<Rightarrow> outstream \<Rightarrow> bool" where
  "may_shut y i = (case i of StdOut \<Rightarrow> syCanceled y | StdErr \<Rightarrow> syMain y = Waiting \<and> syExited y)"

text \<open>
  A piece of input is read, the terminal looked at and the recorder called in one step: nobody else reads
  the client's input, so what counts is the mode of the terminal at the look. The command, and whoever has
  the terminal open, changes that mode at any time.
\<close>

inductive stream_step :: "stream_sys \<Rightarrow> stream_sys \<Rightarrow> bool" where
  copies_out: "copy_step (syOut y i) l c \<Longrightarrow> (l = Shuts \<Longrightarrow> may_shut y i) \<Longrightarrow>
    stream_step y (y\<lparr>syOut := (syOut y)(i := c), syCalls := syCalls y @ out_calls i l\<rparr>)"
| copies_in: "copy_step (syIn y) l c \<Longrightarrow>
    stream_step y (y\<lparr>syIn := c, syCalls := syCalls y @ in_calls (syPty y) (echoEnabled (tcgets (syFlags y) ok)) l,
      syTyped := syTyped y @ typed (syFlags y) ok l\<rparr>)"
| sets_mode: "stream_step y (y\<lparr>syFlags := flags\<rparr>)"
| cancels: "stream_step y (y\<lparr>syCanceled := True\<rparr>)"
| exits: "stream_step y (y\<lparr>syExited := True\<rparr>)"
| drained: "syMain y = Draining \<Longrightarrow> cpDone (syOut y StdOut) \<Longrightarrow> stream_step y (y\<lparr>syMain := Waiting\<rparr>)"
| waited: "syMain y = Waiting \<Longrightarrow> syExited y \<Longrightarrow> cpDone (syOut y StdErr) \<Longrightarrow> stream_step y (y\<lparr>syMain := Reported\<rparr>)"

inductive_cases stream_stepE: "stream_step y y'"

section \<open>The invariant\<close>

definition recorded :: "(origin \<Rightarrow> bool) \<Rightarrow> stream_sys \<Rightarrow> bytes" where
  "recorded P y = concat (map snd (filter (P \<circ> fst) (syCalls y)))"

definition echoed :: "stream_sys \<Rightarrow> bytes" where
  "echoed y = concat (map fst (filter (\<lambda>(d, flags, ok). syPty y \<and> ok \<and> bit flags 3) (syTyped y)))"

definition copies_inv :: "stream_sys \<Rightarrow> bool" where
  "copies_inv y \<longleftrightarrow> (\<forall>i. copy_inv (syOut y i)) \<and> copy_inv (syIn y)"

definition calls_inv :: "stream_sys \<Rightarrow> bool" where
  "calls_inv y \<longleftrightarrow> (\<forall>i. recorded (\<lambda>x. x = FromOut i) y = cpTaken (syOut y i)) \<and>
     recorded (\<lambda>x. x = FromInput) y = echoed y \<and> concat (map fst (syTyped y)) = cpTaken (syIn y)"

definition main_inv :: "stream_sys \<Rightarrow> bool" where
  "main_inv y \<longleftrightarrow> (cpShut (syOut y StdOut) \<longrightarrow> syCanceled y) \<and>
     (syMain y \<noteq> Draining \<longrightarrow> cpDone (syOut y StdOut)) \<and>
     (syMain y = Reported \<longrightarrow> syExited y \<and> cpDone (syOut y StdErr))"

lemma run_streams_inv: "copies_inv (run_streams pty notice)" "calls_inv (run_streams pty notice)" "main_inv (run_streams pty notice)"
  by (auto simp: copies_inv_def calls_inv_def main_inv_def run_streams_def copy_inv_new recorded_def echoed_def
      new_copier_def copy_inv_def)

lemma copies_inv_step:
  assumes "stream_step y y'" "copies_inv y"
  shows "copies_inv y'"
  using assms(1)
proof cases
  case (copies_out i l c)
  then have "copy_inv c" using assms(2) copy_inv_step [OF copies_out(2)] by (simp add: copies_inv_def)
  with copies_out(1) assms(2) show ?thesis by (simp add: copies_inv_def)
next
  case (copies_in l c ok)
  then show ?thesis using assms(2) copy_inv_step [OF copies_in(2)] by (simp add: copies_inv_def)
qed (use assms(2) in \<open>simp_all add: copies_inv_def\<close>)

lemma calls_inv_step:
  assumes "stream_step y y'" "calls_inv y"
  shows "calls_inv y'"
  using assms(1)
proof cases
  case (copies_out i l c)
  with assms(2) copy_step_taken [OF copies_out(2)] show ?thesis
    by (auto simp: calls_inv_def recorded_def echoed_def out_calls_def took_def split: copy_label.splits)
next
  case (copies_in l c ok)
  with assms(2) copy_step_taken [OF copies_in(2)] show ?thesis
    by (auto simp: calls_inv_def recorded_def echoed_def in_calls_def typed_def took_def echoEnabled_bit split: copy_label.splits)
qed (use assms(2) in \<open>auto simp: calls_inv_def recorded_def echoed_def\<close>)

lemma main_inv_step:
  assumes "stream_step y y'" "main_inv y"
  shows "main_inv y'"
  using assms(1)
proof cases
  case (copies_out i l c)
  with assms(2) copy_step_stays [OF copies_out(2)] show ?thesis by (auto simp: main_inv_def may_shut_def)
qed (use assms(2) in \<open>auto simp: main_inv_def\<close>)

interpretation streams: transition_system "\<lambda>y. \<exists>pty notice. y = run_streams pty notice" stream_step
    "\<lambda>y. copies_inv y \<and> calls_inv y \<and> main_inv y"
  by unfold_locales (auto simp: run_streams_inv intro: copies_inv_step calls_inv_step main_inv_step)

lemma streams_reachable:
  assumes "stream_step\<^sup>*\<^sup>* (run_streams pty notice) y"
  shows "copies_inv y" "calls_inv y" "main_inv y"
  using streams.inv_reachable [OF _ assms] by blast+

lemma syPty_step: "stream_step y y' \<Longrightarrow> syPty y' = syPty y"
  by (auto elim!: stream_stepE)

lemma syPty_reachable:
  assumes "stream_step\<^sup>*\<^sup>* (run_streams pty notice) y"
  shows "syPty y = pty"
  using assms by (induction rule: rtranclp_induct) (auto simp: run_streams_def syPty_step)

section \<open>What the client sees\<close>

text \<open>C13.
  Nothing reaches the client unrecorded. In every state a session can get into, each output stream has
  delivered to the client only bytes that were handed to the recorder before, in their order, and those are
  bytes the command wrote; and the command has received only what the client typed, in order.
\<close>
theorem client_sees_only_recorded:
  assumes "stream_step\<^sup>*\<^sup>* (run_streams pty notice) y"
  shows "prefix (cpDelivered (syOut y i)) (recorded (\<lambda>x. x = FromOut i) y) \<and>
    prefix (recorded (\<lambda>x. x = FromOut i) y) (cpProduced (syOut y i)) \<and>
    prefix (cpDelivered (syIn y)) (concat (map fst (syTyped y)))"
  using streams_reachable [OF assms] copy_inv_delivered by (auto simp: copies_inv_def calls_inv_def)

text \<open>C11.
  Input that the terminal does not echo is never recorded. The terminal has a mode that the command changes at
  will; the input the recorder was given is, in every reachable state, exactly the pieces for which the
  terminal had its echo flag, bit 3 of the local flags, set at that moment and the flags could be read, in their order, and
  nothing at all without a terminal.
\<close>
theorem silent_input_never_recorded:
  assumes "stream_step\<^sup>*\<^sup>* (run_streams pty notice) y"
  shows "recorded (\<lambda>x. x = FromInput) y =
    concat (map fst (filter (\<lambda>(d, flags, ok). pty \<and> ok \<and> bit flags 3) (syTyped y)))"
  using streams_reachable(2) [OF assms] syPty_reachable [OF assms] by (simp add: calls_inv_def echoed_def)

text \<open>C12.
  The exit status comes after the output. When the end of the command is reported, the process has ended,
  and unless the session was canceled or the client could not be written to, the client has all
  of the standard output, of the command and of everything it left running with it.
\<close>
theorem output_complete_before_exit:
  assumes "stream_step\<^sup>*\<^sup>* (run_streams pty notice) y" "syMain y = Reported"
  shows "syExited y \<and> (\<forall>i. cpHeld (syOut y i) = None) \<and>
    (\<not> syCanceled y \<and> \<not> cpFailed (syOut y StdOut) \<longrightarrow>
       cpDelivered (syOut y StdOut) = cpProduced (syOut y StdOut) \<and> \<not> cpWriters (syOut y StdOut))"
proof -
  note inv = streams_reachable [OF assms(1)]
  from inv(3) assms(2) have m: "syExited y" "cpDone (syOut y StdOut)" "cpDone (syOut y StdErr)"
    "cpShut (syOut y StdOut) \<longrightarrow> syCanceled y" by (auto simp: main_inv_def)
  have c: "copy_inv (syOut y i)" for i using inv(1) by (simp add: copies_inv_def)
  have "cpDone (syOut y i)" for i using m by (cases i) auto
  then have "\<forall>i. cpHeld (syOut y i) = None" using c by (auto simp: copy_inv_def)
  with m copy_inv_complete [OF c m(2)] show ?thesis by blast
qed

section \<open>With the recorder\<close>

text \<open>The bytes given to \<^verbatim>\<open>RecordOutput\<close>, of both streams and the notice, in the order of the calls.\<close>

definition all_output :: "stream_sys \<Rightarrow> bytes" where
  "all_output y = recorded (\<lambda>x. x \<noteq> FromInput) y"

lemma pty_stderr_silent:
  assumes "stream_step\<^sup>*\<^sup>* (run_streams True notice) y"
  shows "cpDone (syOut y StdErr) \<and> cpTaken (syOut y StdErr) = [] \<and>
    all_output y = (if notice = '''' then [] else notice @ crlf) @ cpTaken (syOut y StdOut)"
  using assms
proof (induction rule: rtranclp_induct)
  case base
  then show ?case by (simp add: run_streams_def all_output_def recorded_def new_copier_def)
next
  case (step y z)
  from step(2) show ?case
  proof cases
    case (copies_out i l c)
    have "took l = []" if "i = StdErr"
      using copies_out(2) step(3) that by (auto simp: took_def copy_read_def elim!: copy_stepE)
    with copies_out step(3) copy_step_taken [OF copies_out(2)] copy_step_stays(1) [OF copies_out(2)] show ?thesis
      by (cases i) (auto simp: all_output_def recorded_def out_calls_def took_def split: copy_label.splits)
  next
    case (copies_in l c ok)
    with step(3) show ?thesis by (auto simp: all_output_def recorded_def in_calls_def split: copy_label.splits)
  qed (use step(3) in \<open>auto simp: all_output_def recorded_def\<close>)
qed

text \<open>C10.
  A recording shows what the client saw. Take a session with a terminal in any state it can reach, and a recorder that
  got its calls, with exits, ticks and resizes between them, and was closed below the size limit. The
  output in the recording is exactly the notice and then all that was read from the terminal, of which what was
  delivered to the client is the beginning.
\<close>
theorem recording_shows_what_was_seen:
  assumes "stream_step\<^sup>*\<^sup>* (run_streams True notice) y"
    and "rec_new io opts sink = Inr r" "run_calls fl (cs @ [RcClose cio]) r = (r', 0)" "\<not> list_ex is_close cs"
    and "given ''o'' cs = all_output y"
  shows "stream_of ''o'' (rEvents r') = (if notice = '''' then [] else notice @ crlf) @ cpTaken (syOut y StdOut) \<and>
    prefix (cpDelivered (syOut y StdOut)) (cpTaken (syOut y StdOut)) \<and>
    prefix (cpTaken (syOut y StdOut)) (cpProduced (syOut y StdOut))"
proof -
  have "stream_of ''o'' (rEvents r') = given ''o'' cs"
    using recorded_all [OF assms(2,3,4), of "''o''"] by simp
  moreover have "prefix (cpDelivered (syOut y StdOut)) (cpTaken (syOut y StdOut))"
    "prefix (cpTaken (syOut y StdOut)) (cpProduced (syOut y StdOut))"
    using streams_reachable(1) [OF assms(1)] copy_inv_delivered by (auto simp: copies_inv_def)
  ultimately show ?thesis
    using pty_stderr_silent [OF assms(1)] assms(5) by simp
qed

section \<open>An example\<close>

text \<open>A session with a terminal whose command prints two characters and ends.\<close>

definition ex_printed :: bytes where "ex_printed = [CHR ''h'', CHR 0xC3, CHR 0xA9]"

definition ex_sys :: "copier \<Rightarrow> (origin \<times> bytes) list \<Rightarrow> bool \<Rightarrow> main_pc \<Rightarrow> stream_sys" where
  "ex_sys c calls ended pc = \<lparr>syPty = True, syFlags = new_tty_flags,
     syOut = (\<lambda>i. case i of StdErr \<Rightarrow> new_copier\<lparr>cpWriters := False, cpDone := True\<rparr> | StdOut \<Rightarrow> c),
     syIn = new_copier, syCalls = calls, syTyped = [], syCanceled = False, syExited = ended, syMain = pc\<rparr>"

definition ex_copied :: copier where
  "ex_copied = \<lparr>cpProduced = ex_printed, cpPipe = [], cpWriters = False, cpShut = False, cpHeld = None, cpTaken = ex_printed,
     cpDelivered = ex_printed, cpFailed = False, cpDone = True\<rparr>"

lemma ex_start: "run_streams True '''' = ex_sys new_copier [] False Draining"
  by (auto simp: run_streams_def ex_sys_def fun_eq_iff split: outstream.splits)

lemma ex_copy:
  assumes "copy_step c l c'" "l \<noteq> Shuts"
  shows "stream_step\<^sup>*\<^sup>* (ex_sys c calls ended pc) (ex_sys c' (calls @ out_calls StdOut l) ended pc)"
proof -
  have "(ex_sys c calls ended pc)\<lparr>syOut := (syOut (ex_sys c calls ended pc))(StdOut := c'),
      syCalls := syCalls (ex_sys c calls ended pc) @ out_calls StdOut l\<rparr> = ex_sys c' (calls @ out_calls StdOut l) ended pc"
    by (auto simp: ex_sys_def fun_eq_iff split: outstream.splits)
  moreover have "copy_step (syOut (ex_sys c calls ended pc) StdOut) l c'" using assms(1) by (simp add: ex_sys_def)
  ultimately have "stream_step (ex_sys c calls ended pc) (ex_sys c' (calls @ out_calls StdOut l) ended pc)"
    using copies_out [of "ex_sys c calls ended pc" StdOut l c'] assms(2) by simp
  then show ?thesis by (rule r_into_rtranclp)
qed

lemma ex_copied_run:
  "stream_step\<^sup>*\<^sup>* (run_streams True '''') (ex_sys ex_copied [(FromOut StdOut, ex_printed)] False Draining)"
proof -
  define c1 where "c1 = new_copier\<lparr>cpProduced := ex_printed, cpPipe := ex_printed\<rparr>"
  define c2 where "c2 = c1\<lparr>cpPipe := [], cpTaken := ex_printed, cpHeld := Some ex_printed\<rparr>"
  define c3 where "c3 = c2\<lparr>cpHeld := None, cpDelivered := ex_printed\<rparr>"
  define c4 where "c4 = c3\<lparr>cpWriters := False\<rparr>"
  note defs = c4_def c3_def c2_def c1_def new_copier_def
  have p: "copy_step new_copier Quiet c1" using produces [of new_copier ex_printed] by (simp add: c1_def new_copier_def)
  have r: "copy_step c1 (Took ex_printed) c2"
    by (rule reads [of 3]) (simp add: copy_read_def defs ex_printed_def)
  have w: "copy_step c2 Quiet c3" by (rule writes [of None]) (simp add: copy_write_def defs)
  have g: "copy_step c3 Quiet c4" unfolding c4_def by (rule writers_gone)
  have e: "copy_step c4 Quiet ex_copied" by (rule ends) (simp add: copy_end_def defs ex_copied_def)
  show ?thesis
    unfolding ex_start
    using ex_copy [OF p, of "[]"] ex_copy [OF r, of "[]"] ex_copy [OF w] ex_copy [OF g] ex_copy [OF e]
    by (auto simp: out_calls_def) (meson rtranclp_trans)
qed

lemma ex_reported_run:
  "stream_step\<^sup>*\<^sup>* (run_streams True '''') (ex_sys ex_copied [(FromOut StdOut, ex_printed)] True Reported)"
proof -
  let ?s = "ex_sys ex_copied [(FromOut StdOut, ex_printed)]"
  have "stream_step (?s False Draining) (?s True Draining)"
    using exits [of "?s False Draining"] by (simp add: ex_sys_def)
  moreover have "stream_step (?s True Draining) (?s True Waiting)"
    using drained [of "?s True Draining"] by (simp add: ex_sys_def ex_copied_def)
  moreover have "stream_step (?s True Waiting) (?s True Reported)"
    using waited [of "?s True Waiting"] by (simp add: ex_sys_def)
  ultimately show ?thesis using ex_copied_run by (meson rtranclp.rtrancl_into_rtrancl)
qed

theorem client_sees_only_recorded_witness:
  "prefix (cpDelivered ex_copied) (recorded (\<lambda>x. x = FromOut StdOut) (ex_sys ex_copied [(FromOut StdOut, ex_printed)] True Reported))"
  using client_sees_only_recorded [OF ex_reported_run, of StdOut] by (simp add: ex_sys_def)

theorem output_complete_before_exit_witness: "cpDelivered ex_copied = ex_printed"
  using output_complete_before_exit [OF ex_reported_run] by (simp add: ex_sys_def ex_copied_def)

text \<open>A password typed after the command turned the echo off.\<close>

theorem silent_input_never_recorded_witness:
  "\<exists>y. stream_step\<^sup>*\<^sup>* (run_streams True '''') y \<and> concat (map fst (syTyped y)) = ''pw'' \<and> recorded (\<lambda>x. x = FromInput) y = ''''"
proof -
  define c1 where "c1 = new_copier\<lparr>cpProduced := ''pw'', cpPipe := ''pw''\<rparr>"
  define c2 where "c2 = c1\<lparr>cpPipe := [], cpTaken := ''pw'', cpHeld := Some ''pw''\<rparr>"
  define y0 where "y0 = (run_streams True '''')\<lparr>syFlags := 0x8A33\<rparr>"
  define y2 where "y2 = y0\<lparr>syIn := c2, syTyped := [(''pw'', 0x8A33, True)]\<rparr>"
  have "stream_step (run_streams True '''') y0" unfolding y0_def by (rule sets_mode)
  moreover have "copy_step new_copier Quiet c1" using produces [of new_copier "''pw''"] by (simp add: c1_def new_copier_def)
  then have "stream_step y0 (y0\<lparr>syIn := c1\<rparr>)"
    using copies_in [of y0 Quiet c1 True] by (simp add: y0_def run_streams_def in_calls_def typed_def)
  moreover have "copy_step c1 (Took ''pw'') c2"
    by (rule reads [of 2]) (simp add: copy_read_def c2_def c1_def new_copier_def)
  then have "stream_step (y0\<lparr>syIn := c1\<rparr>) y2"
    using copies_in [of "y0\<lparr>syIn := c1\<rparr>" "Took ''pw''" c2 True]
    by (simp add: y2_def y0_def run_streams_def in_calls_def typed_def echoEnabled_bit bit_numeral_rec)
  ultimately have run: "stream_step\<^sup>*\<^sup>* (run_streams True '''') y2"
    by (meson r_into_rtranclp rtranclp_trans)
  have "syTyped y2 = [(''pw'', 0x8A33, True)]" by (simp add: y2_def)
  with silent_input_never_recorded [OF run] run show ?thesis by (intro exI [of _ y2]) simp
qed

theorem recording_shows_what_was_seen_witness:
  "stream_of ''o'' (rEvents (fst (run_calls id (ex_calls @ [RcClose ex_close_io]) ex_rec))) = ex_printed \<and>
   stream_step\<^sup>*\<^sup>* (run_streams True '''') (ex_sys ex_copied [(FromOut StdOut, ex_printed)] True Reported) \<and>
   cpDelivered ex_copied = ex_printed"
proof (rule ex_rec_run)
  fix r' assume run: "run_calls id (ex_calls @ [RcClose ex_close_io]) ex_rec = (r', 0)"
  have "given ''o'' ex_calls = all_output (ex_sys ex_copied [(FromOut StdOut, ex_printed)] True Reported)"
    by (simp add: ex_calls_def all_output_def recorded_def ex_sys_def ex_printed_def)
  from recording_shows_what_was_seen [OF ex_reported_run ex_rec_new run ex_calls_valid(2) this] run
  show ?thesis using ex_reported_run by (simp add: ex_sys_def ex_copied_def)
qed

end
