(* ===== verification/Proxy.thy ===== *)
theory Proxy
  imports Stream_Copy
begin

text \<open>
  The two ends of a forwarded connection: \<^verbatim>\<open>proxy\<close> of \<^verbatim>\<open>internal/sshd/forward.go\<close>, which closes both ends as soon
  as one direction is over, and \<^verbatim>\<open>relayAgentConn\<close> of \<^verbatim>\<open>agent.go\<close>, which passes the end of one direction
  on and lets the other one finish.
\<close>

section \<open>The two goroutines\<close>

datatype direction = ToChannel | ToConn

datatype proxy_mode = CloseBoth | HalfClose

text \<open>
  The goroutine of each direction, whether it has ended, the directions whose end was passed on by closing
  the writing side, and how often the two ends were closed.
\<close>

record proxy_sys =
  pxMode :: proxy_mode
  pxCopy :: "direction \<Rightarrow> copier"
  pxEnded :: "direction \<Rightarrow> bool"
  pxHalf :: "direction set"
  pxCloses :: nat

definition new_proxy :: "proxy_mode \<Rightarrow> proxy_sys" where
  "new_proxy m = \<lparr>pxMode = m, pxCopy = (\<lambda>d. new_copier), pxEnded = (\<lambda>d. False), pxHalf = {}, pxCloses = 0\<rparr>"

text \<open>\<^verbatim>\<open>relayAgentConn\<close>: without a channel there is nothing to copy.\<close>

definition relayAgentConn :: "bool \<Rightarrow> proxy_sys option" where
  "relayAgentConn open_ok = (if open_ok then Some (new_proxy HalfClose) else None)"

text \<open>Closing both ends closes the source of each goroutine.\<close>

definition close_ends :: "proxy_sys \<Rightarrow> proxy_sys" where
  "close_ends p = p\<lparr>pxCopy := (\<lambda>d. (pxCopy p d)\<lparr>cpShut := True\<rparr>), pxCloses := Suc (pxCloses p)\<rparr>"

text \<open>What a goroutine does after its copy: \<^verbatim>\<open>closeBoth\<close>, which runs once, or \<^verbatim>\<open>CloseWrite\<close>.\<close>

definition end_direction :: "direction \<Rightarrow> proxy_sys \<Rightarrow> proxy_sys" where
  "end_direction d p =
     (let p1 = p\<lparr>pxEnded := (pxEnded p)(d := True)\<rparr> in
      case pxMode p of
        CloseBoth \<Rightarrow> if pxCloses p = 0 then close_ends p1 else p1
      | HalfClose \<Rightarrow> p1\<lparr>pxHalf := insert d (pxHalf p)\<rparr>)"

inductive proxy_step :: "proxy_sys \<Rightarrow> proxy_sys \<Rightarrow> bool" where
  copies: "copy_step (pxCopy p d) l c \<Longrightarrow> proxy_step p (p\<lparr>pxCopy := (pxCopy p)(d := c)\<rparr>)"
| ends_direction: "cpDone (pxCopy p d) \<Longrightarrow> \<not> pxEnded p d \<Longrightarrow> proxy_step p (end_direction d p)"
| returns: "pxMode p = HalfClose \<Longrightarrow> (\<And>d. pxEnded p d) \<Longrightarrow> pxCloses p = 0 \<Longrightarrow> proxy_step p (close_ends p)"

inductive_cases proxy_stepE: "proxy_step p p'"

section \<open>The invariant\<close>

definition proxy_inv :: "proxy_sys \<Rightarrow> bool" where
  "proxy_inv p \<longleftrightarrow> (\<forall>d. copy_inv (pxCopy p d)) \<and> (\<forall>d. pxEnded p d \<longrightarrow> cpDone (pxCopy p d)) \<and> pxCloses p \<le> 1 \<and>
     (pxMode p = CloseBoth \<longrightarrow> pxHalf p = {} \<and> (pxCloses p = 1 \<longleftrightarrow> (\<exists>d. pxEnded p d)) \<and>
        ((\<exists>d. pxEnded p d) \<longrightarrow> (\<forall>d. cpShut (pxCopy p d)))) \<and>
     (pxMode p = HalfClose \<longrightarrow> pxHalf p = {d. pxEnded p d} \<and> (pxCloses p = 1 \<longrightarrow> (\<forall>d. pxEnded p d)))"

lemma copy_inv_shut: "copy_inv c \<Longrightarrow> copy_inv (c\<lparr>cpShut := True\<rparr>)"
  using copy_inv_step [OF copy_step.shuts] .

lemma proxy_inv_new: "proxy_inv (new_proxy m)"
  by (simp add: proxy_inv_def new_proxy_def copy_inv_new)

lemma proxy_inv_step:
  assumes "proxy_step p q" "proxy_inv p"
  shows "proxy_inv q"
  using assms(1)
proof cases
  case (copies d l c)
  have "copy_inv c" using copy_inv_step [OF copies(2)] assms(2) by (simp add: proxy_inv_def)
  with copies assms(2) copy_step_stays [OF copies(2)] show ?thesis by (auto simp: proxy_inv_def)
next
  case (ends_direction d)
  with assms(2) show ?thesis
    by (cases "pxMode p") (auto simp: proxy_inv_def end_direction_def close_ends_def Let_def intro: copy_inv_shut)
next
  case returns
  with assms(2) show ?thesis by (auto simp: proxy_inv_def close_ends_def intro: copy_inv_shut)
qed

interpretation proxy: transition_system "\<lambda>p. p = new_proxy m" proxy_step proxy_inv for m
  by unfold_locales (auto simp: proxy_inv_new intro: proxy_inv_step)

section \<open>Properties\<close>

text \<open>A forwarded connection keeps its two streams. In every state the two goroutines can get into, each end has
  received the beginning of what the other end sent; the ends are closed at most once; a forwarded port closes
  them exactly when a direction is over; and an agent connection passes an end on only when that
  direction has ended, so that without an error everything was delivered before.
\<close>
theorem proxy_keeps_streams:
  assumes "proxy_step\<^sup>*\<^sup>* (new_proxy m) p"
  shows "prefix (cpDelivered (pxCopy p d)) (cpProduced (pxCopy p d)) \<and> pxCloses p \<le> 1 \<and>
    (pxMode p = CloseBoth \<longrightarrow> (pxCloses p = 1 \<longleftrightarrow> (\<exists>d. pxEnded p d))) \<and>
    (pxMode p = HalfClose \<and> d \<in> pxHalf p \<and> \<not> cpFailed (pxCopy p d) \<and> \<not> cpShut (pxCopy p d) \<longrightarrow>
       cpDelivered (pxCopy p d) = cpProduced (pxCopy p d))"
proof -
  have inv: "proxy_inv p" using proxy.inv_reachable [OF refl assms] .
  then have c: "copy_inv (pxCopy p d)" by (simp add: proxy_inv_def)
  have "prefix (cpDelivered (pxCopy p d)) (cpProduced (pxCopy p d))"
    using copy_inv_delivered [OF c] by (rule prefix_order.trans)
  moreover have "cpDelivered (pxCopy p d) = cpProduced (pxCopy p d)"
    if "pxMode p = HalfClose" "d \<in> pxHalf p" "\<not> cpFailed (pxCopy p d)" "\<not> cpShut (pxCopy p d)"
    using inv that by (intro copy_inv_complete(1) [OF c]) (auto simp: proxy_inv_def)
  moreover have "pxCloses p \<le> 1" "pxMode p = CloseBoth \<longrightarrow> (pxCloses p = 1 \<longleftrightarrow> (\<exists>d. pxEnded p d))"
    using inv by (simp_all add: proxy_inv_def)
  ultimately show ?thesis by blast
qed

text \<open>
  Once one direction of a forwarded port is over, the other goroutine always can end too, whatever the writes answer.
\<close>

lemma lift_copies:
  "(\<lambda>c c'. \<exists>l. copy_step c l c')\<^sup>*\<^sup>* (pxCopy p d) c \<Longrightarrow> proxy_step\<^sup>*\<^sup>* p (p\<lparr>pxCopy := (pxCopy p)(d := c)\<rparr>)"
proof (induction rule: rtranclp_induct)
  case base
  then show ?case by simp
next
  case (step c c')
  then obtain l where "copy_step c l c'" by blast
  then have "proxy_step (p\<lparr>pxCopy := (pxCopy p)(d := c)\<rparr>) (p\<lparr>pxCopy := (pxCopy p)(d := c')\<rparr>)"
    using copies [of "p\<lparr>pxCopy := (pxCopy p)(d := c)\<rparr>" d l c'] by simp
  with step.IH show ?case by (rule rtranclp.rtrancl_into_rtrancl)
qed

lemma proxy_can_end:
  assumes "proxy_step\<^sup>*\<^sup>* (new_proxy CloseBoth) p" "pxMode p = CloseBoth" "pxEnded p d" "\<not> pxEnded p e"
  shows "\<exists>q. proxy_step\<^sup>*\<^sup>* p q \<and> pxEnded q e"
proof -
  have inv: "proxy_inv p" using proxy.inv_reachable [OF refl assms(1)] .
  with assms(2,3) have "cpShut (pxCopy p e)" by (auto simp: proxy_inv_def)
  then obtain c where c: "(\<lambda>c c'. \<exists>l. copy_step c l c')\<^sup>*\<^sup>* (pxCopy p e) c" "cpDone c"
    using shut_copier_ends by (cases "cpDone (pxCopy p e)") blast+
  define q where "q = p\<lparr>pxCopy := (pxCopy p)(e := c)\<rparr>"
  have "proxy_step q (end_direction e q)"
    by (rule ends_direction) (use c(2) assms(4) in \<open>simp_all add: q_def\<close>)
  moreover have "proxy_step\<^sup>*\<^sup>* p q" unfolding q_def by (rule lift_copies [OF c(1)])
  moreover have "pxEnded (end_direction e q) e"
    by (simp add: end_direction_def close_ends_def Let_def split: proxy_mode.splits)
  ultimately show ?thesis by (meson rtranclp.rtrancl_into_rtrancl)
qed

theorem proxy_keeps_streams_witness:
  "prefix (cpDelivered (pxCopy (new_proxy HalfClose) ToConn)) (cpProduced (pxCopy (new_proxy HalfClose) ToConn))"
  using proxy_keeps_streams [OF rtranclp.rtrancl_refl] by blast

end
