(* ===== verification/Startup_Slots.thy ===== *)
theory Startup_Slots
  imports Server
begin

text \<open>
  The slots a connection holds while its handshake runs, \<^verbatim>\<open>acquireStartup\<close> of
  \<^verbatim>\<open>internal/sshd/server.go\<close> and the release function it returns. Loopback clients have a budget of their own;
  all other clients share one, of which a single source can hold a part only.
\<close>

datatype startup_slot = LocalSlot | SourceSlot netip_addr

definition startup_source :: "string \<Rightarrow> netip_addr" where
  "startup_source addr =
     (case parse_addr_port addr of None \<Rightarrow> AddrZero | Some (a, port) \<Rightarrow> unmap a)"

definition source_count :: "server \<Rightarrow> netip_addr \<Rightarrow> int" where
  "source_count s a = (case sourceStartups s a of None \<Rightarrow> 0 | Some n \<Rightarrow> n)"

definition acquireStartup :: "server \<Rightarrow> string \<Rightarrow> (server \<times> startup_slot) option" where
  "acquireStartup s addr =
     (let source = startup_source addr in
      if is_loopback source then
        (case sem_try (localStartups s) of None \<Rightarrow> None
         | Some q \<Rightarrow> Some (s\<lparr>localStartups := q\<rparr>, LocalSlot))
      else
        let source = (if is6 source then mask64 source else source) in
        if source_count s source \<ge> int maxSourceStartups then None
        else (case sem_try (startups s) of None \<Rightarrow> None
          | Some q \<Rightarrow>
              Some (s\<lparr>startups := q,
                      sourceStartups := (sourceStartups s)(source \<mapsto> source_count s source + 1)\<rparr>,
                    SourceSlot source)))"

text \<open>
  The release function runs in two atomic parts: the receive from the channel, then, for a
  counted source, the decrement under the mutex. Other connections can run in between.
\<close>

definition release_slot :: "server \<Rightarrow> startup_slot \<Rightarrow> server option" where
  "release_slot s slot =
     (case slot of
        LocalSlot \<Rightarrow> map_option (\<lambda>q. s\<lparr>localStartups := q\<rparr>) (sem_recv (localStartups s))
      | SourceSlot a \<Rightarrow> map_option (\<lambda>q. s\<lparr>startups := q\<rparr>) (sem_recv (startups s)))"

definition release_count :: "server \<Rightarrow> netip_addr \<Rightarrow> server" where
  "release_count s a =
     (let n = source_count s a - 1 in
      s\<lparr>sourceStartups := (sourceStartups s)(a := (if n = 0 then None else Some n))\<rparr>)"

section \<open>All connections together\<close>

text \<open>
  The server with the slots that handshakes hold and the sources whose release is between its
  two parts. A step is one atomic part of one connection.
\<close>

record startup_sys =
  sys_srv :: server
  held :: "startup_slot multiset"
  half :: "netip_addr multiset"

inductive startup_step :: "startup_sys \<Rightarrow> startup_sys \<Rightarrow> bool" where
  acquire: "acquireStartup (sys_srv y) addr = Some (s', slot) \<Longrightarrow>
    startup_step y (y\<lparr>sys_srv := s', held := add_mset slot (held y)\<rparr>)"
| release_local: "LocalSlot \<in># held y \<Longrightarrow> release_slot (sys_srv y) LocalSlot = Some s' \<Longrightarrow>
    startup_step y (y\<lparr>sys_srv := s', held := held y - {#LocalSlot#}\<rparr>)"
| release_source: "SourceSlot a \<in># held y \<Longrightarrow> release_slot (sys_srv y) (SourceSlot a) = Some s' \<Longrightarrow>
    startup_step y (y\<lparr>sys_srv := s', held := held y - {#SourceSlot a#}, half := add_mset a (half y)\<rparr>)"
| uncount: "a \<in># half y \<Longrightarrow>
    startup_step y (y\<lparr>sys_srv := release_count (sys_srv y) a, half := half y - {#a#}\<rparr>)"

definition startup_init :: "startup_sys \<Rightarrow> bool" where
  "startup_init y \<longleftrightarrow> held y = {#} \<and> half y = {#} \<and>
     startups (sys_srv y) = make_sem maxStartups \<and> localStartups (sys_srv y) = make_sem maxStartups \<and>
     sourceStartups (sys_srv y) = Map.empty"

text \<open>The slots a source accounts for: those held and those whose count is still to be given back.\<close>

definition taken :: "startup_sys \<Rightarrow> netip_addr \<Rightarrow> nat" where
  "taken y a = count (held y) (SourceSlot a) + count (half y) a"

definition source_slots :: "startup_sys \<Rightarrow> nat" where
  "source_slots y = size (filter_mset (\<lambda>x. x \<noteq> LocalSlot) (held y))"

definition startup_inv :: "startup_sys \<Rightarrow> bool" where
  "startup_inv y \<longleftrightarrow>
     sem_cap (startups (sys_srv y)) = maxStartups \<and> sem_cap (localStartups (sys_srv y)) = maxStartups \<and>
     sem_used (startups (sys_srv y)) = source_slots y \<and>
     sem_used (localStartups (sys_srv y)) = count (held y) LocalSlot \<and>
     source_slots y \<le> maxStartups \<and> count (held y) LocalSlot \<le> maxStartups \<and>
     (\<forall>a. sourceStartups (sys_srv y) a = (if taken y a = 0 then None else Some (int (taken y a)))) \<and>
     (\<forall>a. taken y a \<le> maxSourceStartups)"

inductive_cases startup_stepE: "startup_step y z"

text \<open>How each step changes what a source accounts for.\<close>

lemma taken_acquire:
  "taken (y\<lparr>sys_srv := s, held := add_mset slot (held y)\<rparr>) a =
     taken y a + (if slot = SourceSlot a then 1 else 0)"
  by (simp add: taken_def)

lemma taken_release_local:
  "taken (y\<lparr>sys_srv := s, held := held y - {#LocalSlot#}\<rparr>) a = taken y a"
  by (simp add: taken_def)

lemma taken_release_source:
  "SourceSlot b \<in># held y \<Longrightarrow>
   taken (y\<lparr>sys_srv := s, held := held y - {#SourceSlot b#}, half := add_mset b (half y)\<rparr>) a = taken y a"
  by (cases "a = b") (simp_all add: taken_def)

lemma taken_uncount:
  "b \<in># half y \<Longrightarrow>
   taken (y\<lparr>sys_srv := s, half := half y - {#b#}\<rparr>) a = (if a = b then taken y a - 1 else taken y a)"
  by (cases "a = b") (simp_all add: taken_def)

lemma taken_half_pos: "b \<in># half y \<Longrightarrow> 0 < taken y b"
  by (auto simp: taken_def)

text \<open>How giving a slot back changes the slots held.\<close>

lemma held_minus_local:
  assumes "LocalSlot \<in># H"
  shows "count H LocalSlot = Suc (count (H - {#LocalSlot#}) LocalSlot)"
    and "filter_mset (\<lambda>x. x \<noteq> LocalSlot) (H - {#LocalSlot#}) = filter_mset (\<lambda>x. x \<noteq> LocalSlot) H"
proof -
  from assms obtain h where "H = add_mset LocalSlot h" by (metis multi_member_split)
  then show "count H LocalSlot = Suc (count (H - {#LocalSlot#}) LocalSlot)"
    "filter_mset (\<lambda>x. x \<noteq> LocalSlot) (H - {#LocalSlot#}) = filter_mset (\<lambda>x. x \<noteq> LocalSlot) H"
    by simp_all
qed

lemma held_minus_source:
  assumes "SourceSlot a \<in># H"
  shows "count (H - {#SourceSlot a#}) LocalSlot = count H LocalSlot"
    and "size (filter_mset (\<lambda>x. x \<noteq> LocalSlot) H) =
      Suc (size (filter_mset (\<lambda>x. x \<noteq> LocalSlot) (H - {#SourceSlot a#})))"
proof -
  from assms obtain h where "H = add_mset (SourceSlot a) h" by (metis multi_member_split)
  then show "count (H - {#SourceSlot a#}) LocalSlot = count H LocalSlot"
    "size (filter_mset (\<lambda>x. x \<noteq> LocalSlot) H) =
      Suc (size (filter_mset (\<lambda>x. x \<noteq> LocalSlot) (H - {#SourceSlot a#})))"
    by simp_all
qed

lemmas taken_steps = taken_acquire taken_release_local taken_release_source taken_uncount

lemma source_count_taken:
  "startup_inv y \<Longrightarrow> source_count (sys_srv y) a = int (taken y a)"
  by (simp add: startup_inv_def source_count_def)

lemma acquireStartup_local:
  assumes "acquireStartup s addr = Some (s', LocalSlot)"
  obtains q where "sem_try (localStartups s) = Some q" "s' = s\<lparr>localStartups := q\<rparr>"
  using assms by (auto simp: acquireStartup_def Let_def split: if_splits option.splits)

lemma acquireStartup_source:
  assumes "acquireStartup s addr = Some (s', SourceSlot a)"
  obtains q where "sem_try (startups s) = Some q" "source_count s a < int maxSourceStartups"
    "s' = s\<lparr>startups := q, sourceStartups := (sourceStartups s)(a \<mapsto> source_count s a + 1)\<rparr>"
  using assms by (auto simp: acquireStartup_def Let_def split: if_splits option.splits)

lemma startup_inv_acquire:
  assumes inv: "startup_inv y" and acq: "acquireStartup (sys_srv y) addr = Some (s', slot)"
  shows "startup_inv (y\<lparr>sys_srv := s', held := add_mset slot (held y)\<rparr>)"
proof (cases slot)
  case LocalSlot
  with acq obtain q where q: "sem_try (localStartups (sys_srv y)) = Some q"
    and s': "s' = (sys_srv y)\<lparr>localStartups := q\<rparr>"
    by (metis acquireStartup_local)
  from q go_sem.take_some [OF q] go_sem.take_below [OF q] inv LocalSlot s' show ?thesis
    by (auto simp: startup_inv_def source_slots_def taken_steps)
next
  case (SourceSlot a)
  with acq obtain q where q: "sem_try (startups (sys_srv y)) = Some q"
    and c: "source_count (sys_srv y) a < int maxSourceStartups"
    and s': "s' = (sys_srv y)\<lparr>startups := q,
        sourceStartups := (sourceStartups (sys_srv y))(a \<mapsto> source_count (sys_srv y) a + 1)\<rparr>"
    by (metis acquireStartup_source)
  from q go_sem.take_some [OF q] go_sem.take_below [OF q] inv SourceSlot s' c show ?thesis
    by (auto simp: startup_inv_def source_slots_def taken_steps source_count_taken [OF inv])
qed

lemma startup_inv_release_local:
  assumes inv: "startup_inv y" and mem: "LocalSlot \<in># held y"
    and rel: "release_slot (sys_srv y) LocalSlot = Some s'"
  shows "startup_inv (y\<lparr>sys_srv := s', held := held y - {#LocalSlot#}\<rparr>)"
proof -
  from rel obtain q where q: "sem_recv (localStartups (sys_srv y)) = Some q"
    and s': "s' = (sys_srv y)\<lparr>localStartups := q\<rparr>"
    by (auto simp: release_slot_def)
  from held_minus_local [OF mem] go_sem.give_some [OF q] inv s' show ?thesis
    by (auto simp: startup_inv_def source_slots_def taken_steps)
qed

lemma startup_inv_release_source:
  assumes inv: "startup_inv y" and mem: "SourceSlot a \<in># held y"
    and rel: "release_slot (sys_srv y) (SourceSlot a) = Some s'"
  shows "startup_inv (y\<lparr>sys_srv := s', held := held y - {#SourceSlot a#}, half := add_mset a (half y)\<rparr>)"
proof -
  from rel obtain q where q: "sem_recv (startups (sys_srv y)) = Some q"
    and s': "s' = (sys_srv y)\<lparr>startups := q\<rparr>"
    by (auto simp: release_slot_def)
  from held_minus_source [OF mem] go_sem.give_some [OF q] inv s' mem show ?thesis
    by (auto simp: startup_inv_def source_slots_def taken_steps)
qed

lemma startup_inv_uncount:
  assumes inv: "startup_inv y" and mem: "a \<in># half y"
  shows "startup_inv (y\<lparr>sys_srv := release_count (sys_srv y) a, half := half y - {#a#}\<rparr>)"
proof -
  have "source_count (sys_srv y) a = int (taken y a)" "0 < taken y a"
    using inv mem by (simp_all add: source_count_taken taken_half_pos)
  with inv mem show ?thesis
    by (auto simp: startup_inv_def release_count_def Let_def source_slots_def taken_steps
          intro: le_trans [OF diff_le_self])
qed

interpretation startup: transition_system startup_init startup_step startup_inv
proof
  fix y assume "startup_init y"
  then show "startup_inv y"
    by (simp add: startup_init_def startup_inv_def make_sem_def source_slots_def taken_def)
next
  fix y z assume "startup_inv y" "startup_step y z"
  then show "startup_inv z"
    by (elim startup_stepE)
      (auto intro: startup_inv_acquire startup_inv_release_local startup_inv_release_source
        startup_inv_uncount)
qed

section \<open>Properties\<close>

text \<open>
  In every state the server can reach, with any number of handshakes interleaved, no source
  (an IPv4 address or an IPv6 network of 64 bits) holds more than three of the slots before
  authentication, all sources together hold at most ten, and loopback clients at most ten of their own.
\<close>

theorem startup_slots_bounded:
  assumes "startup_init y" and "startup_step\<^sup>*\<^sup>* y z"
  shows "count (held z) (SourceSlot a) \<le> maxSourceStartups \<and>
    source_slots z \<le> maxStartups \<and> count (held z) LocalSlot \<le> maxStartups"
proof -
  from assms have "startup_inv z" by (rule startup.inv_reachable)
  then show ?thesis
    by (metis add_leD1 startup_inv_def taken_def)
qed

definition ex_startup :: startup_sys where
  "ex_startup = \<lparr>sys_srv = ex_server, held = {#}, half = {#}\<rparr>"

lemma ex_startup_init: "startup_init ex_startup"
  by (simp add: startup_init_def ex_startup_def ex_server_def maxStartups_def)

definition ex_startup1 :: startup_sys where
  "ex_startup1 = \<lparr>sys_srv = ex_server\<lparr>startups := \<lparr>sem_cap = 10, sem_used = 1\<rparr>,
       sourceStartups := [Addr4 0xC0000201 \<mapsto> 1]\<rparr>,
     held = {#SourceSlot (Addr4 0xC0000201)#}, half = {#}\<rparr>"

lemma ex_startup_run: "startup_step\<^sup>*\<^sup>* ex_startup ex_startup1"
proof -
  have "parse_addr_port ''192.0.2.1:5000'' = Some (Addr4 0xC0000201, 5000)"
    by (simp add: net_eval)
  then have "startup_source ''192.0.2.1:5000'' = Addr4 0xC0000201"
    by (simp add: startup_source_def unmap_def)
  then have "acquireStartup (sys_srv ex_startup) ''192.0.2.1:5000'' =
      Some (sys_srv ex_startup1, SourceSlot (Addr4 0xC0000201))"
    by (simp add: acquireStartup_def ex_startup_def ex_startup1_def is_loopback_def unmap_def is6_def
        source_count_def maxSourceStartups_def sem_try_def ex_server_def make_sem_def Let_def)
  from startup_step.acquire [OF this] have "startup_step ex_startup ex_startup1"
    by (simp add: ex_startup_def ex_startup1_def)
  then show ?thesis by blast
qed

theorem startup_slots_bounded_witness:
  "startup_init ex_startup \<and> startup_step\<^sup>*\<^sup>* ex_startup ex_startup1 \<and>
   count (held ex_startup1) (SourceSlot (Addr4 0xC0000201)) \<le> maxSourceStartups"
  using startup_slots_bounded [OF ex_startup_init ex_startup_run] ex_startup_init ex_startup_run
  by blast

text \<open>
  The slots never leak: a held slot can always be given back without blocking, and once every
  handshake is over both channels are empty and no source is counted any more.
\<close>

theorem startup_slots_returned:
  assumes "startup_init y" and "startup_step\<^sup>*\<^sup>* y z"
  shows "(\<forall>slot \<in># held z. release_slot (sys_srv z) slot \<noteq> None) \<and>
    (held z = {#} \<and> half z = {#} \<longrightarrow> startups (sys_srv z) = make_sem maxStartups \<and>
      localStartups (sys_srv z) = make_sem maxStartups \<and> sourceStartups (sys_srv z) = Map.empty)"
proof -
  from assms have inv: "startup_inv z" by (rule startup.inv_reachable)
  have "release_slot (sys_srv z) slot \<noteq> None" if mem: "slot \<in># held z" for slot
  proof (cases slot)
    case LocalSlot
    with mem inv have "sem_used (localStartups (sys_srv z)) \<noteq> 0" by (auto simp: startup_inv_def)
    with LocalSlot show ?thesis by (simp add: release_slot_def go_sem.give_none)
  next
    case (SourceSlot a)
    with mem have "filter_mset (\<lambda>x. x \<noteq> LocalSlot) (held z) \<noteq> {#}" by auto
    with inv have "sem_used (startups (sys_srv z)) \<noteq> 0"
      by (auto simp: startup_inv_def source_slots_def)
    with SourceSlot show ?thesis by (simp add: release_slot_def go_sem.give_none)
  qed
  moreover have "startups (sys_srv z) = make_sem maxStartups \<and>
      localStartups (sys_srv z) = make_sem maxStartups \<and> sourceStartups (sys_srv z) = Map.empty"
    if "held z = {#}" "half z = {#}"
    using inv that by (auto simp: startup_inv_def source_slots_def taken_def make_sem_def
        intro!: sem.equality)
  ultimately show ?thesis by blast
qed

theorem startup_slots_returned_witness:
  "startup_init ex_startup \<and> startup_step\<^sup>*\<^sup>* ex_startup ex_startup1 \<and>
   release_slot (sys_srv ex_startup1) (SourceSlot (Addr4 0xC0000201)) \<noteq> None"
proof -
  have "SourceSlot (Addr4 0xC0000201) \<in># held ex_startup1" by (simp add: ex_startup1_def)
  with startup_slots_returned [OF ex_startup_init ex_startup_run] ex_startup_init ex_startup_run
  show ?thesis by blast
qed

end
