(* ===== verification/Connection.thy ===== *)
theory Connection
  imports Startup_Slots Client_Sync
begin

text \<open>
  The life of a connection, \<^verbatim>\<open>handleConn\<close> and \<^verbatim>\<open>handshake\<close> of \<^verbatim>\<open>internal/sshd/server.go\<close> with the admission in
  \<^verbatim>\<open>Serve\<close> and \<^verbatim>\<open>ServeConn\<close> before it: any number of connections, each with its own goroutine, share
  the connection slots, the slots before authentication and the table of live connections. A step is one
  atomic part of one of them, or one part of a sync. What is deferred runs on a panic too, so a panic is a failed
  handshake or the end of a served connection.
\<close>

section \<open>Steps\<close>

text \<open>
  Where a connection is: admitted with its address and whether it was relayed; in its handshake with the slot it
  holds; with the handshake over (the connection, or nothing when it failed) and the slot still to be given
  back; between the two parts of giving it back; after the handshake; entered into the live connections; and on its way out.
\<close>

datatype conn_pc =
    CnAdmitted string bool
  | CnShaking "startup_slot option"
  | CnShaken "startup_slot option" "server_conn option"
  | CnUncounting netip_addr "server_conn option"
  | CnFree "server_conn option"
  | CnLive
  | CnClosing

record life_sys =
  lfSrv :: server
  lfConns :: "(nat \<times> conn_pc) multiset"

definition after_release :: "startup_slot \<Rightarrow> server_conn option \<Rightarrow> conn_pc" where
  "after_release slot c = (case slot of LocalSlot \<Rightarrow> CnFree c | SourceSlot a \<Rightarrow> CnUncounting a c)"

inductive life_step :: "life_sys \<Rightarrow> life_sys \<Rightarrow> bool" where
  accepted: "serve_round (lfSrv y) delay (Accepted addr) = (s', d, HandleConn addr False) \<Longrightarrow>
    i \<notin> fst ` set_mset (lfConns y) \<Longrightarrow>
    life_step y \<lparr>lfSrv = s', lfConns = add_mset (i, CnAdmitted addr False) (lfConns y)\<rparr>"
| relayed: "ServeConn (lfSrv y) addr = (s', HandleConn addr True) \<Longrightarrow> i \<notin> fst ` set_mset (lfConns y) \<Longrightarrow>
    life_step y \<lparr>lfSrv = s', lfConns = add_mset (i, CnAdmitted addr True) (lfConns y)\<rparr>"
| slot: "lfConns y = add_mset (i, CnAdmitted addr False) R \<Longrightarrow> acquireStartup (lfSrv y) addr = Some (s', slot) \<Longrightarrow>
    life_step y \<lparr>lfSrv = s', lfConns = add_mset (i, CnShaking (Some slot)) R\<rparr>"
| busy: "lfConns y = add_mset (i, CnAdmitted addr False) R \<Longrightarrow> acquireStartup (lfSrv y) addr = None \<Longrightarrow>
    life_step y (y\<lparr>lfConns := add_mset (i, CnClosing) R\<rparr>)"
| no_slot: "lfConns y = add_mset (i, CnAdmitted addr True) R \<Longrightarrow>
    life_step y (y\<lparr>lfConns := add_mset (i, CnShaking None) R\<rparr>)"
| attempt: "(i, CnShaking slot) \<in># lfConns y \<Longrightarrow>
    authenticate check_cert now principals lookup nologin (lfSrv y) conn key proved = (s', res) \<Longrightarrow>
    life_step y (y\<lparr>lfSrv := s'\<rparr>)"
| login: "lfConns y = add_mset (i, CnShaking slot) R \<Longrightarrow>
    authenticate check_cert now principals lookup nologin (lfSrv y) conn key True = (s', Some (Inr perms)) \<Longrightarrow>
    life_step y \<lparr>lfSrv = s',
      lfConns = add_mset (i, CnShaken slot (Some \<lparr>sc_meta = conn, sc_perms = perms, sc_open = True\<rparr>)) R\<rparr>"
| fails: "lfConns y = add_mset (i, CnShaking slot) R \<Longrightarrow>
    life_step y (y\<lparr>lfConns := add_mset (i, CnShaken slot None) R\<rparr>)"
| deadline_fails: "lfConns y = add_mset (i, CnShaken slot c) R \<Longrightarrow>
    life_step y (y\<lparr>lfConns := add_mset (i, CnShaken slot None) R\<rparr>)"
| releases: "lfConns y = add_mset (i, CnShaken (Some slot) c) R \<Longrightarrow> release_slot (lfSrv y) slot = Some s' \<Longrightarrow>
    life_step y \<lparr>lfSrv = s', lfConns = add_mset (i, after_release slot c) R\<rparr>"
| uncounts: "lfConns y = add_mset (i, CnUncounting a c) R \<Longrightarrow>
    life_step y \<lparr>lfSrv = release_count (lfSrv y) a, lfConns = add_mset (i, CnFree c) R\<rparr>"
| none_held: "lfConns y = add_mset (i, CnShaken None c) R \<Longrightarrow>
    life_step y (y\<lparr>lfConns := add_mset (i, CnFree c) R\<rparr>)"
| gives_up: "lfConns y = add_mset (i, CnFree None) R \<Longrightarrow> life_step y (y\<lparr>lfConns := add_mset (i, CnClosing) R\<rparr>)"
| registers: "lfConns y = add_mset (i, CnFree (Some c)) R \<Longrightarrow>
    life_step y \<lparr>lfSrv = (lfSrv y)\<lparr>live := (live (lfSrv y))(i \<mapsto> c)\<rparr>, lfConns = add_mset (i, CnLive) R\<rparr>"
| unregisters: "lfConns y = add_mset (i, CnLive) R \<Longrightarrow>
    life_step y \<lparr>lfSrv = (lfSrv y)\<lparr>live := (live (lfSrv y))(i := None)\<rparr>, lfConns = add_mset (i, CnClosing) R\<rparr>"
| leaves: "lfConns y = add_mset (i, CnClosing) R \<Longrightarrow> conn_done (lfSrv y) = Some s' \<Longrightarrow>
    life_step y \<lparr>lfSrv = s', lfConns = R\<rparr>"
| drops: "life_step y (y\<lparr>lfSrv := drop_one now principals (lfSrv y) i\<rparr>)"
| policy: "life_step y (y\<lparr>lfSrv := SetPolicy (lfSrv y) p\<rparr>)"
| trust: "life_step y (y\<lparr>lfSrv := SetTrust parse_key (lfSrv y) ca retired\<rparr>)"
| reload: "life_step y (y\<lparr>lfSrv := Reload cert_signer_ok stored (lfSrv y)\<rparr>)"

inductive_cases life_stepE: "life_step y y'"

definition life_init :: "life_sys \<Rightarrow> bool" where
  "life_init y \<longleftrightarrow> lfConns y = {#} \<and> conns (lfSrv y) = make_sem maxConns \<and> startups (lfSrv y) = make_sem maxStartups \<and>
     localStartups (lfSrv y) = make_sem maxStartups \<and> sourceStartups (lfSrv y) = Map.empty \<and> live (lfSrv y) = Map.empty"

section \<open>What connections hold\<close>

text \<open>The slots before authentication that a connection holds, and the source it has still to uncount.\<close>

fun pc_held :: "conn_pc \<Rightarrow> startup_slot multiset" where
  "pc_held (CnShaking (Some slot)) = {#slot#}"
| "pc_held (CnShaken (Some slot) c) = {#slot#}"
| "pc_held _ = {#}"

fun pc_half :: "conn_pc \<Rightarrow> netip_addr multiset" where
  "pc_half (CnUncounting a c) = {#a#}"
| "pc_half _ = {#}"

definition slots_of :: "life_sys \<Rightarrow> startup_sys" where
  "slots_of y = \<lparr>sys_srv = lfSrv y, held = (\<Sum>p \<in># lfConns y. pc_held (snd p)), half = (\<Sum>p \<in># lfConns y. pc_half (snd p))\<rparr>"

definition slots_inv :: "life_sys \<Rightarrow> bool" where
  "slots_inv y \<longleftrightarrow> startup_inv (slots_of y)"

definition conns_inv :: "life_sys \<Rightarrow> bool" where
  "conns_inv y \<longleftrightarrow> sem_cap (conns (lfSrv y)) = maxConns \<and> sem_used (conns (lfSrv y)) = size (lfConns y) \<and>
     size (lfConns y) \<le> maxConns"

definition live_inv :: "life_sys \<Rightarrow> bool" where
  "live_inv y \<longleftrightarrow> (\<forall>i. count (image_mset fst (lfConns y)) i \<le> 1) \<and>
     dom (live (lfSrv y)) = {i. (i, CnLive) \<in># lfConns y}"

text \<open>The fields of the server that the three parts look at.\<close>

lemma startup_inv_frame:
  assumes "startups s' = startups s" "localStartups s' = localStartups s" "sourceStartups s' = sourceStartups s"
  shows "startup_inv \<lparr>sys_srv = s', held = H, half = F\<rparr> = startup_inv \<lparr>sys_srv = s, held = H, half = F\<rparr>"
  using assms by (simp add: startup_inv_def source_slots_def taken_def)

lemma authenticate_fields:
  assumes "authenticate check_cert now principals lookup nologin s conn key proved = (s', res)"
  shows "conns s' = conns s" "startups s' = startups s" "localStartups s' = localStartups s"
    "sourceStartups s' = sourceStartups s" "live s' = live s"
  using assms
  by (auto simp: auth_defs emit_def split: public_key.splits prod.splits sum.splits if_splits option.splits)

lemma server_fields:
  "serve_round s delay (Accepted addr) = (s', d, HandleConn a b) \<Longrightarrow>
     startups s' = startups s \<and> localStartups s' = localStartups s \<and> sourceStartups s' = sourceStartups s \<and> live s' = live s \<and>
     sem_try (conns s) = Some (conns s')"
  "ServeConn s addr = (s', HandleConn a b) \<Longrightarrow>
     startups s' = startups s \<and> localStartups s' = localStartups s \<and> sourceStartups s' = sourceStartups s \<and> live s' = live s \<and>
     sem_try (conns s) = Some (conns s')"
  "conn_done s = Some s' \<Longrightarrow>
     startups s' = startups s \<and> localStartups s' = localStartups s \<and> sourceStartups s' = sourceStartups s \<and> live s' = live s \<and>
     sem_recv (conns s) = Some (conns s')"
  "acquireStartup s addr = Some (s', slot) \<Longrightarrow> conns s' = conns s \<and> live s' = live s"
  "release_slot s slot = Some s' \<Longrightarrow> conns s' = conns s \<and> live s' = live s"
  "conns (release_count s x) = conns s \<and> live (release_count s x) = live s"
  by (auto simp: serve_round_def ServeConn_def conn_done_def acquireStartup_def release_slot_def release_count_def Let_def
      split: option.splits if_splits startup_slot.splits)

lemma config_fields:
  "conns (SetTrust parse_key s ca retired) = conns s" "startups (SetTrust parse_key s ca retired) = startups s"
  "localStartups (SetTrust parse_key s ca retired) = localStartups s"
  "sourceStartups (SetTrust parse_key s ca retired) = sourceStartups s" "live (SetTrust parse_key s ca retired) = live s"
  "conns (drop_one now principals s i) = conns s" "startups (drop_one now principals s i) = startups s"
  "localStartups (drop_one now principals s i) = localStartups s"
  "sourceStartups (drop_one now principals s i) = sourceStartups s"
  by (auto simp: SetTrust_def drop_one_def Let_def split: option.splits if_splits)

section \<open>The invariant\<close>

lemma slots_inv_same:
  assumes "slots_inv y" "startups (lfSrv z) = startups (lfSrv y)" "localStartups (lfSrv z) = localStartups (lfSrv y)"
    "sourceStartups (lfSrv z) = sourceStartups (lfSrv y)"
    "(\<Sum>p \<in># lfConns z. pc_held (snd p)) = (\<Sum>p \<in># lfConns y. pc_held (snd p))"
    "(\<Sum>p \<in># lfConns z. pc_half (snd p)) = (\<Sum>p \<in># lfConns y. pc_half (snd p))"
  shows "slots_inv z"
  using assms startup_inv_frame [of "lfSrv z" "lfSrv y"] by (simp add: slots_inv_def slots_of_def)

lemma slots_inv_step:
  assumes "life_step y z" "slots_inv y"
  shows "slots_inv z"
  using assms(1)
proof cases
  case (slot i addr R s' slot)
  with assms(2) startup_inv_acquire [of "slots_of y" addr s' slot] show ?thesis
    by (simp add: slots_inv_def slots_of_def)
next
  case (releases i slot c R s')
  show ?thesis
  proof (cases slot)
    case LocalSlot
    with releases assms(2) startup_inv_release_local [of "slots_of y" s'] show ?thesis
      by (simp add: slots_inv_def slots_of_def after_release_def)
  next
    case (SourceSlot a)
    with releases assms(2) startup_inv_release_source [of "slots_of y" a s'] show ?thesis
      by (simp add: slots_inv_def slots_of_def after_release_def)
  qed
next
  case (uncounts i a c R)
  with assms(2) startup_inv_uncount [of "slots_of y" a] show ?thesis
    by (simp add: slots_inv_def slots_of_def)
next
  case (no_slot i addr R)
  then show ?thesis by (intro slots_inv_same [OF assms(2)]) simp_all
next
  case (login i slot R cc now ps lookup nologin conn key s' perms)
  then show ?thesis
    using authenticate_fields [OF login(3)] by (intro slots_inv_same [OF assms(2)]) (cases slot; simp)+
next
  case (fails i slot R)
  then show ?thesis by (intro slots_inv_same [OF assms(2)]) (cases slot; simp)+
next
  case (deadline_fails i slot c R)
  then show ?thesis by (intro slots_inv_same [OF assms(2)]) (cases slot; simp)+
next
  case (attempt i slot cc now ps lookup nologin conn key proved s' res)
  then show ?thesis
    using authenticate_fields [OF attempt(3)] by (intro slots_inv_same [OF assms(2)]) simp_all
qed (rule slots_inv_same [OF assms(2)]; simp add: config_fields SetPolicy_def Reload_def server_fields(1,2,3))+

lemma conns_inv_step:
  assumes "life_step y z" "conns_inv y"
  shows "conns_inv z"
  using assms(1)
proof cases
  case (accepted delay addr s' d i)
  note q = server_fields(1) [OF accepted(2)]
  with go_sem.take_some [of "conns (lfSrv y)"] go_sem.take_below [of "conns (lfSrv y)"] accepted(1) assms(2) show ?thesis
    by (fastforce simp: conns_inv_def)
next
  case (relayed addr s' i)
  note q = server_fields(2) [OF relayed(2)]
  with go_sem.take_some [of "conns (lfSrv y)"] go_sem.take_below [of "conns (lfSrv y)"] relayed(1) assms(2) show ?thesis
    by (fastforce simp: conns_inv_def)
next
  case (leaves i R s')
  with go_sem.give_some [of "conns (lfSrv y)" "conns s'"] server_fields(3) [OF leaves(3)] assms(2) show ?thesis
    by (simp add: conns_inv_def)
qed (use assms(2) in \<open>simp_all add: conns_inv_def config_fields SetPolicy_def Reload_def server_fields authenticate_fields\<close>)

lemma live_inv_move:
  assumes "live_inv y" "dom (live (lfSrv z)) = dom (live (lfSrv y))" "p \<noteq> CnLive" "q \<noteq> CnLive"
    "lfConns y = add_mset (i, p) R" "lfConns z = add_mset (i, q) R"
  shows "live_inv z"
  using assms by (auto simp: live_inv_def)

lemma live_inv_same:
  assumes "live_inv y" "lfConns z = lfConns y" "dom (live (lfSrv z)) = dom (live (lfSrv y))"
  shows "live_inv z"
  using assms by (simp add: live_inv_def)

lemma live_inv_fresh:
  assumes "live_inv y" "lfConns z = add_mset (i, p) (lfConns y)" "i \<notin> fst ` set_mset (lfConns y)" "p \<noteq> CnLive"
    "live (lfSrv z) = live (lfSrv y)"
  shows "live_inv z"
proof -
  have "count (image_mset fst (lfConns y)) i = 0" using assms(3) by (simp add: not_in_iff [symmetric])
  with assms show ?thesis by (auto simp: live_inv_def)
qed

lemma id_once:
  assumes "live_inv y" "lfConns y = add_mset (i, p) R"
  shows "(i, q) \<notin># R"
proof
  assume "(i, q) \<in># R"
  then have "i \<in># image_mset fst R" by force
  then obtain Q where "image_mset fst R = add_mset i Q" by (metis multi_member_split)
  moreover have "count (image_mset fst (lfConns y)) i \<le> 1" using assms(1) by (simp add: live_inv_def)
  ultimately show False using assms(2) by simp
qed

lemma live_inv_step:
  assumes "life_step y z" "live_inv y"
  shows "live_inv z"
  using assms(1)
proof cases
  case (accepted delay addr s' d i)
  from server_fields(1) [OF accepted(2)] show ?thesis
    by (intro live_inv_fresh [OF assms(2) _ accepted(3), of _ "CnAdmitted addr False"]) (simp_all add: accepted(1))
next
  case (relayed addr s' i)
  from server_fields(2) [OF relayed(2)] show ?thesis
    by (intro live_inv_fresh [OF assms(2) _ relayed(3), of _ "CnAdmitted addr True"]) (simp_all add: relayed(1))
next
  case (attempt i slot cc now ps lookup nologin conn key proved s' res)
  then show ?thesis
    using authenticate_fields(5) [OF attempt(3)] by (intro live_inv_same [OF assms(2)]) simp_all
next
  case (login i slot R cc now ps lookup nologin conn key s' perms)
  then show ?thesis
    using authenticate_fields(5) [OF login(3)] by (intro live_inv_move [OF assms(2)]) simp_all
next
  case (slot i addr R s' slot)
  then show ?thesis using server_fields(4) [OF slot(3)] by (intro live_inv_move [OF assms(2)]) simp_all
next
  case (releases i slot c R s')
  then show ?thesis
    using server_fields(5) [OF releases(3)]
    by (intro live_inv_move [OF assms(2)]) (simp_all add: after_release_def split: startup_slot.splits)
next
  case (uncounts i a c R)
  then show ?thesis by (intro live_inv_move [OF assms(2)]) (simp_all add: server_fields(6))
next
  case (registers i c R)
  with assms(2) id_once [OF assms(2) registers(2)] show ?thesis by (auto simp: live_inv_def)
next
  case (unregisters i R)
  with assms(2) id_once [OF assms(2) unregisters(2)] show ?thesis by (auto simp: live_inv_def)
next
  case (leaves i R s')
  have "count (image_mset fst R) j \<le> count (image_mset fst (lfConns y)) j" for j by (simp add: leaves(2))
  with assms(2) leaves server_fields(3) [OF leaves(3)] show ?thesis
    by (auto simp: live_inv_def simp del: count_add_mset intro: le_trans)
qed ((rule live_inv_same [OF assms(2)]; simp add: config_fields SetPolicy_def Reload_def drop_one_frame; fail) |
    (rule live_inv_move [OF assms(2)], simp_all))+

interpretation life: transition_system life_init life_step "\<lambda>y. slots_inv y \<and> conns_inv y \<and> live_inv y"
proof
  fix y assume "life_init y"
  then show "slots_inv y \<and> conns_inv y \<and> live_inv y"
    by (auto simp: life_init_def slots_inv_def slots_of_def startup_inv_def conns_inv_def live_inv_def make_sem_def
        source_slots_def taken_def)
next
  fix y z assume "slots_inv y \<and> conns_inv y \<and> live_inv y" "life_step y z"
  then show "slots_inv z \<and> conns_inv z \<and> live_inv z"
    using slots_inv_step conns_inv_step live_inv_step by blast
qed

lemma life_reachable:
  assumes "life_init y" "life_step\<^sup>*\<^sup>* y z"
  shows "slots_inv z" "conns_inv z" "live_inv z"
  using life.inv_reachable [OF assms] by blast+

section \<open>Properties\<close>

text \<open>A connection in its handshake with a slot of a kind.\<close>

definition shaking :: "(startup_slot \<Rightarrow> bool) \<Rightarrow> life_sys \<Rightarrow> nat" where
  "shaking P y = size (filter_mset (\<lambda>p. \<exists>slot. snd p = CnShaking (Some slot) \<and> P slot) (lfConns y))"

lemma shaking_held: "shaking P y \<le> size (filter_mset P (held (slots_of y)))"
proof -
  have "size (filter_mset (\<lambda>p. \<exists>slot. snd p = CnShaking (Some slot) \<and> P slot) M)
      \<le> size (filter_mset P (\<Sum>p \<in># M. pc_held (snd p)))" for M :: "(nat \<times> conn_pc) multiset"
    by (induction M) (auto simp: add_increasing)
  then show ?thesis by (simp add: shaking_def slots_of_def)
qed

lemma shaking_bounds:
  assumes "slots_inv y"
  shows "shaking (\<lambda>s. s = SourceSlot a) y \<le> maxSourceStartups" "shaking (\<lambda>s. s \<noteq> LocalSlot) y \<le> maxStartups"
    "shaking (\<lambda>s. s = LocalSlot) y \<le> maxStartups"
proof -
  have "taken (slots_of y) a \<le> maxSourceStartups" using assms by (simp add: slots_inv_def startup_inv_def)
  then have "count (held (slots_of y)) (SourceSlot a) \<le> maxSourceStartups" by (simp add: taken_def)
  then show "shaking (\<lambda>s. s = SourceSlot a) y \<le> maxSourceStartups"
    using shaking_held [of "\<lambda>s. s = SourceSlot a" y] by (simp add: filter_eq_replicate_mset)
  show "shaking (\<lambda>s. s \<noteq> LocalSlot) y \<le> maxStartups"
    using shaking_held [of "\<lambda>s. s \<noteq> LocalSlot" y] assms by (simp add: slots_inv_def startup_inv_def source_slots_def)
  show "shaking (\<lambda>s. s = LocalSlot) y \<le> maxStartups"
    using shaking_held [of "\<lambda>s. s = LocalSlot" y] assms by (simp add: slots_inv_def startup_inv_def filter_eq_replicate_mset)
qed

lemma all_gone:
  assumes "slots_inv y" "conns_inv y" "live_inv y" "lfConns y = {#}"
  shows "conns (lfSrv y) = make_sem maxConns" "startups (lfSrv y) = make_sem maxStartups"
    "localStartups (lfSrv y) = make_sem maxStartups" "sourceStartups (lfSrv y) = Map.empty" "live (lfSrv y) = Map.empty"
  using assms
  by (auto simp: slots_inv_def conns_inv_def live_inv_def startup_inv_def slots_of_def source_slots_def taken_def
      make_sem_def intro!: sem.equality)

text \<open>C18.
  Connections are accounted for. However connections come, authenticate, fail and end, and whatever syncs do in
  between: at most a hundred are handled at once and each has one connection slot; the live connections are
  those that have logged in and given their slot before authentication back; in their handshake are at most
  three of a source, ten of all sources and ten of the host itself, apart from relayed ones; and when no connection is left,
  every slot is free and nothing is counted or live.
\<close>
theorem connections_accounted:
  assumes "life_init y" "life_step\<^sup>*\<^sup>* y z"
  shows "size (lfConns z) \<le> maxConns \<and> sem_used (conns (lfSrv z)) = size (lfConns z) \<and>
    dom (live (lfSrv z)) = {i. (i, CnLive) \<in># lfConns z} \<and>
    shaking (\<lambda>s. s = SourceSlot a) z \<le> maxSourceStartups \<and> shaking (\<lambda>s. s \<noteq> LocalSlot) z \<le> maxStartups \<and>
    shaking (\<lambda>s. s = LocalSlot) z \<le> maxStartups \<and>
    (lfConns z = {#} \<longrightarrow> conns (lfSrv z) = make_sem maxConns \<and> startups (lfSrv z) = make_sem maxStartups \<and>
       localStartups (lfSrv z) = make_sem maxStartups \<and> sourceStartups (lfSrv z) = Map.empty \<and> live (lfSrv z) = Map.empty)"
proof -
  note inv = life_reachable [OF assms]
  then have "size (lfConns z) \<le> maxConns" "sem_used (conns (lfSrv z)) = size (lfConns z)"
    "dom (live (lfSrv z)) = {i. (i, CnLive) \<in># lfConns z}" by (simp_all add: conns_inv_def live_inv_def)
  then show ?thesis using shaking_bounds [OF inv(1)] all_gone [OF inv] by blast
qed

text \<open>C19.
  No connection hangs on its way out. In every reachable state a connection whose handshake is over can
  give its slot back, and one that closes can give its connection slot back, without blocking, whatever the
  others do.
\<close>
theorem connection_can_always_end:
  assumes "life_init y" "life_step\<^sup>*\<^sup>* y z" "(i, p) \<in># lfConns z"
  shows "(p = CnShaken (Some slot) c \<longrightarrow> release_slot (lfSrv z) slot \<noteq> None) \<and>
    (p = CnClosing \<longrightarrow> conn_done (lfSrv z) \<noteq> None)"
proof -
  note inv = life_reachable [OF assms(1,2)]
  obtain R where R: "lfConns z = add_mset (i, p) R" using assms(3) by (metis multi_member_split)
  have "release_slot (lfSrv z) slot \<noteq> None" if "p = CnShaken (Some slot) c"
  proof (cases slot)
    case LocalSlot
    with that R inv(1) have "sem_used (localStartups (lfSrv z)) \<noteq> 0"
      by (simp add: slots_inv_def startup_inv_def slots_of_def)
    with LocalSlot show ?thesis by (simp add: release_slot_def go_sem.give_none)
  next
    case (SourceSlot a)
    with that R inv(1) have "sem_used (startups (lfSrv z)) \<noteq> 0"
      by (simp add: slots_inv_def startup_inv_def slots_of_def source_slots_def)
    with SourceSlot show ?thesis by (simp add: release_slot_def go_sem.give_none)
  qed
  moreover have "conn_done (lfSrv z) \<noteq> None"
    using R inv(2) by (simp add: conn_done_def conns_inv_def go_sem.give_none)
  ultimately show ?thesis by blast
qed

text \<open>A relayed connection that comes, fails to authenticate and is about to close.\<close>

definition ex_life :: "conn_pc \<Rightarrow> life_sys" where
  "ex_life p = \<lparr>lfSrv = ex_server\<lparr>conns := \<lparr>sem_cap = 100, sem_used = 1\<rparr>\<rparr>, lfConns = {#(0, p)#}\<rparr>"

lemma ex_life_init: "life_init \<lparr>lfSrv = ex_server, lfConns = {#}\<rparr>"
  by (simp add: life_init_def ex_server_def maxConns_def maxStartups_def)

lemma ex_life_run: "life_step\<^sup>*\<^sup>* \<lparr>lfSrv = ex_server, lfConns = {#}\<rparr> (ex_life CnClosing)"
proof -
  have 1: "life_step \<lparr>lfSrv = ex_server, lfConns = {#}\<rparr> (ex_life (CnAdmitted ''a'' True))"
    using life_step.relayed [of "\<lparr>lfSrv = ex_server, lfConns = {#}\<rparr>" "''a''" "lfSrv (ex_life CnClosing)" 0]
    by (simp add: ex_life_def ServeConn_def sem_try_def ex_server_def make_sem_def)
  have 2: "life_step (ex_life (CnAdmitted ''a'' True)) (ex_life (CnShaking None))"
    using life_step.no_slot [of "ex_life (CnAdmitted ''a'' True)" 0 "''a''" "{#}"] by (simp add: ex_life_def)
  have 3: "life_step (ex_life (CnShaking None)) (ex_life (CnShaken None None))"
    using life_step.fails [of "ex_life (CnShaking None)" 0 None "{#}"] by (simp add: ex_life_def)
  have 4: "life_step (ex_life (CnShaken None None)) (ex_life (CnFree None))"
    using life_step.none_held [of "ex_life (CnShaken None None)" 0 None "{#}"] by (simp add: ex_life_def)
  have 5: "life_step (ex_life (CnFree None)) (ex_life CnClosing)"
    using life_step.gives_up [of "ex_life (CnFree None)" 0 "{#}"] by (simp add: ex_life_def)
  note s = rtranclp.rtrancl_into_rtrancl [where r = life_step]
  show ?thesis by (rule s [OF s [OF s [OF s [OF r_into_rtranclp [where r = life_step, OF 1] 2] 3] 4] 5])
qed

theorem connections_accounted_witness:
  "sem_used (conns (lfSrv (ex_life CnClosing))) = size (lfConns (ex_life CnClosing)) \<and> dom (live (lfSrv (ex_life CnClosing))) = {}"
  using connections_accounted [OF ex_life_init ex_life_run] by (simp add: ex_life_def)

theorem connection_can_always_end_witness: "conn_done (lfSrv (ex_life CnClosing)) \<noteq> None"
  using connection_can_always_end [OF ex_life_init ex_life_run, of 0 CnClosing] by (simp add: ex_life_def)

section \<open>Keep-alive\<close>

text \<open>
  \<^verbatim>\<open>keepAlive\<close>, with times in units of the interval: after each tick a request is sent, and a timer closes the
  connection when the answer takes three intervals or more. It ends when the connection does, or with the first error.
  The result: whether it closed the connection, whether it still runs, and the requests it sent.
\<close>

datatype alive_event = AliveDone | AliveAnswer nat | AliveSilent | AliveError

fun keepAlive :: "nat \<Rightarrow> alive_event list \<Rightarrow> bool \<times> bool \<times> nat" where
  "keepAlive interval [] = (False, True, 0)"
| "keepAlive interval (AliveDone # es) = (False, False, 0)"
| "keepAlive interval (AliveAnswer t # es) =
     (if t \<ge> 3 * interval then (True, False, 1)
      else case keepAlive interval es of (closed, running, n) \<Rightarrow> (closed, running, Suc n))"
| "keepAlive interval (AliveSilent # es) = (True, False, 1)"
| "keepAlive interval (AliveError # es) = (False, False, 1)"

text \<open>It closes the connection exactly when a peer, while the connection lasted, stayed silent for three intervals.\<close>

definition too_late :: "nat \<Rightarrow> alive_event \<Rightarrow> bool" where
  "too_late interval e = (case e of AliveSilent \<Rightarrow> True | AliveAnswer t \<Rightarrow> t \<ge> 3 * interval | _ \<Rightarrow> False)"

definition in_time :: "nat \<Rightarrow> alive_event \<Rightarrow> bool" where
  "in_time interval e = (case e of AliveAnswer t \<Rightarrow> t < 3 * interval | _ \<Rightarrow> False)"

lemma keepAlive_closes:
  "fst (keepAlive interval es) \<longleftrightarrow>
     (case dropWhile (in_time interval) es of [] \<Rightarrow> False | e # _ \<Rightarrow> too_late interval e)"
  by (induction interval es rule: keepAlive.induct) (auto simp: in_time_def too_late_def split: prod.splits)

end
