(* ===== verification/Spec2Isabelle.thy ===== *)
theory Spec2Isabelle
  imports Conn_Channels Session_Steps Revocation Enrollment Relay Session_Streams Proxy Connection
begin

text \<open>
  A verification of the nokkud SSH daemon.

  \<^bold>\<open>The program.\<close> The daemon is an SSH server that a backend controls. \<^verbatim>\<open>main.go\<close> loads the data directory, enrolls
  the host when it is asked to, builds the server (\<^verbatim>\<open>internal/sshd\<close>) from the cached access list
  (\<^verbatim>\<open>internal/state\<close>) and runs the client (\<^verbatim>\<open>internal/client\<close>). The client syncs access list, policy and trusted
  authorities, closes connections that lost their access, keeps the host certificate fresh
  (\<^verbatim>\<open>internal/hostcerts\<close>), relays web sessions to the server and uploads recordings. The server
  authenticates certificates, opens channels, runs commands as the local account and records
  sessions (\<^verbatim>\<open>internal/recording\<close>).

  \<^bold>\<open>How the model is built.\<close> A struct is a record, an enum a datatype, an error a value. A method that
  runs under a lock is a function on the state; goroutines that share state are a step relation,
  one step for each part that is atomic in the code, and a claim about them holds for every
  interleaving. Go's integers are words where their width matters (times, certificate validity) and
  unbounded where it cannot. Strings are byte strings. Everything outside the repository is an argument of the
  definitions that use it: what the ssh package decoded, what the operating system answered, the
  clock, the answers of the backend, the tables of the package \<^verbatim>\<open>unicode\<close>, the output of the gzip
  writer. The interfaces are locales: \<open>slot_pool\<close> (a counting semaphore; interpreted on Go channels and on
  the channels of a connection), \<open>transition_system\<close> (a step relation with an invariant; interpreted on every
  concurrent component), \<open>principal_source\<close> (what authentication asks of the cache) and \<open>sink\<close> (what the recorder
  asks of an upload; interpreted on the live uploader).

  \<^bold>\<open>The Go library\<close>
  \<^item> \<open>Nokkud_Prelude\<close>: strings, decimal numbers, instants, channels as semaphores, the two general locales.
  \<^item> \<open>Go_Net\<close>, \<open>Go_Path\<close>, \<open>Go_Utf8\<close>, \<open>Go_Time\<close>: the parts of \<^verbatim>\<open>net\<close>, \<^verbatim>\<open>net/netip\<close>, \<^verbatim>\<open>path/filepath\<close>, \<^verbatim>\<open>unicode/utf8\<close> and
    \<^verbatim>\<open>time\<close> the daemon computes with, and \<^verbatim>\<open>float64\<close> of an integer.
  \<^item> \<open>Stream_Copy\<close>: one copying goroutine (\<^verbatim>\<open>io.Copy\<close>), with what was produced, read and delivered.

  \<^bold>\<open>The server\<close>
  \<^item> \<open>State_Cache\<close> (\<^verbatim>\<open>internal/state\<close>): the access list; only well-formed account names are in it.
  \<^item> \<open>Audit_Log\<close>, \<open>Account\<close>, \<open>Sshd_Types\<close>, \<open>Auth\<close> (\<^verbatim>\<open>audit.go\<close>, \<^verbatim>\<open>account.go\<close>, \<^verbatim>\<open>auth.go\<close>): a login succeeds only with a
    certificate of a trusted authority, a principal of the account, and an account that may log in; every
    decision is logged once.
  \<^item> \<open>Server\<close>, \<open>Startup_Slots\<close>, \<open>Connection\<close> (\<^verbatim>\<open>server.go\<close>, \<^verbatim>\<open>keys.go\<close>): construction, policy, the accept loop, the slots before
    authentication, and the life of all connections together: the limits hold, the live table is
    right, nothing leaks, and a connection on its way out never blocks.
  \<^item> \<open>Forward\<close>, \<open>Conn_Channels\<close>, \<open>Proxy\<close> (\<^verbatim>\<open>forward.go\<close>, \<^verbatim>\<open>agent.go\<close>): who may forward what, the channel slots of a
    connection, and the copying between two ends.
  \<^item> \<open>Session\<close>, \<open>Session_Requests\<close> (\<^verbatim>\<open>session.go\<close>): the requests of a client. A forced command cannot be
    escaped, a session has one command, and the id of a recording cannot be forged.
  \<^item> \<open>Session_Command\<close> (\<^verbatim>\<open>session.go\<close>, \<^verbatim>\<open>sftp.go\<close>, \<^verbatim>\<open>signal.go\<close>, \<^verbatim>\<open>agent.go\<close>): commands run as the account and with an environment
    the client cannot spoof; how the end is reported; the agent socket.
  \<^item> \<open>Session_Steps\<close>: the goroutines of a session; it ends once, signals arrive in order, and a process
    that outlives its channel is killed.
  \<^item> \<open>Session_Streams\<close> (\<^verbatim>\<open>session.go\<close>, \<^verbatim>\<open>pty.go\<close>): the streams of a session. What the client sees was recorded
    before, input that is not echoed never is, and the exit status comes after the output.

  \<^bold>\<open>Recording\<close>
  \<^item> \<open>Recording_Files\<close> (\<^verbatim>\<open>sanitize.go\<close>, \<^verbatim>\<open>disk.go\<close>, \<^verbatim>\<open>retention.go\<close>): names, free space, retention.
  \<^item> \<open>Cast_Format\<close>, \<open>Recorder\<close> (\<^verbatim>\<open>recorder.go\<close>): the lines of a recording and the recorder. A recording keeps its
    streams, replays exactly, and does not depend on its sink.
  \<^item> \<open>Uploader\<close> (\<^verbatim>\<open>uploader.go\<close>): the live upload, which refines a pipe that reports success only when
    everything was delivered; its loop ends.
  \<^item> \<open>Pending\<close> (\<^verbatim>\<open>pending.go\<close>): uploads that are made up for; with the recorder: a file leaves the
    disk only when the backend has its bytes.

  \<^bold>\<open>The client\<close>
  \<^item> \<open>Client_Sync\<close>, \<open>Revocation\<close> (\<^verbatim>\<open>sync.go\<close>, \<^verbatim>\<open>DropRevoked\<close>): what a sync applies, and that no served connection
    outlives the loss of its access, also when it logs in while the sync runs. The principal and the authority of a
    connection are looked at in two steps, as the code does under two locks; two clocks that no step reads
    say since when the look must be.
  \<^item> \<open>Client_Run\<close> (\<^verbatim>\<open>client.go\<close>, \<^verbatim>\<open>connect.go\<close>): the run with its control stream, heartbeats, reconnects and upload
    retries; a rejection ends it.
  \<^item> \<open>Host_Certs\<close> (\<^verbatim>\<open>certs.go\<close>, \<^verbatim>\<open>watcher.go\<close>, \<^verbatim>\<open>keys.go\<close>): renewal at half of the validity, by the trusted authority only.
  \<^item> \<open>Relay\<close> (\<^verbatim>\<open>relay.go\<close>): a stream of frames as a connection.
  \<^item> \<open>Host_Report\<close> (\<^verbatim>\<open>internal/sysutil\<close>, \<^verbatim>\<open>internal/paths\<close>): the accounts and addresses reported, and the data directory.
  \<^item> \<open>Enrollment\<close> (\<^verbatim>\<open>main.go\<close>, \<^verbatim>\<open>New\<close> and \<^verbatim>\<open>enroll\<close> of \<^verbatim>\<open>client.go\<close>): the commands, composed of the parts above; what a
    start trusts, what an enrollment forgets, and that a rejected host stays out.

  \<^bold>\<open>Bounds.\<close> There is no fuel: every function of the model is total. A loop that waits for the world (the accept loop, the
  control stream, the keep-alive) is a function on the list of what it meets, so that a claim about it is one
  about every finite part of its run. The send loop of the uploader has a bound: once its channel is
  closed it returns within 197 steps, three for each of the 64 chunks that fit into the
  channel, and the rest for the chunk in hand and the end of the stream.

  \<^bold>\<open>Not modelled.\<close> The table of flags and commands of \<^verbatim>\<open>main\<close>, which the command-line package reads; the SSH transport
  and the sftp protocol, which third-party packages implement; the compression of recordings; the TPM signer,
  the DPoP proofs and the protocol stubs; what the kernel does with a terminal, whose mode the command may change at
  any time; a panic that a handler recovers from; the test server and the leak check.
  The life of one connection is modelled in parts that are proved separately (admission and handshake in \<open>Connection\<close>,
  revocation in \<open>Revocation\<close>, channels in \<open>Conn_Channels\<close>, a session in \<open>Session_Steps\<close> and
  \<open>Session_Streams\<close>): each has the steps of its own goroutines and lets the others do anything
  they can do to the state it shares with them.
\<close>

end
